theory Spec2Isabelle
  imports Main
begin

text \<open>
  The synchronization engine of \<^verbatim>\<open>civic-backend/server.js\<close>: the status mapper, the
  two in-flight sets, the mint and the status-update coordinators, the backlog run at
  start-up and the handlers of the change feed. The contract, the record store and the
  change feed are the environment: their answers are the events of the model. The HTTP
  endpoints and the shutdown handlers are not part of the engine and are left out.
\<close>

section \<open>Values of the JavaScript source\<close>

text \<open>
  A column value of a complaint row is
  modelled as \<open>string option\<close>: \<open>None\<close> is \<^verbatim>\<open>null\<close> (or \<^verbatim>\<open>undefined\<close>),
  \<open>Some s\<close> a string. A condition \<^verbatim>\<open>if (v)\<close> and the operator \<^verbatim>\<open>v || w\<close> test
  truthiness: \<^verbatim>\<open>null\<close> and the empty string are falsy, every other string is truthy.
\<close>

definition truthy :: "string option \<Rightarrow> bool" where
  "truthy v = (case v of None \<Rightarrow> False | Some s \<Rightarrow> s \<noteq> [])"

text \<open>\<^verbatim>\<open>v || w\<close> for a column value \<open>v\<close> and another column value \<open>w\<close>.\<close>

definition js_or :: "string option \<Rightarrow> string option \<Rightarrow> string option" where
  "js_or v w = (if truthy v then v else w)"

text \<open>\<^verbatim>\<open>v || "literal"\<close>: the result is always a string.\<close>

definition or_else :: "string option \<Rightarrow> string \<Rightarrow> string" where
  "or_else v d = (case v of None \<Rightarrow> d | Some s \<Rightarrow> if s = [] then d else s)"

section \<open>Status Mapper: \<^verbatim>\<open>mapStatusToEnum\<close>\<close>

text \<open>
  \<^verbatim>\<open>toLowerCase\<close> maps each of the letters A to Z to its lower-case letter. Other
  characters are left as they are here; none of them is mapped to an ASCII letter that
  occurs in the three status words, so the comparisons below are not affected.
\<close>

definition upper_letters :: string where
  "upper_letters = ''ABCDEFGHIJKLMNOPQRSTUVWXYZ''"

definition lower_letters :: string where
  "lower_letters = ''abcdefghijklmnopqrstuvwxyz''"

definition lower_char :: "char \<Rightarrow> char" where
  "lower_char c =
     (case map_of (zip upper_letters lower_letters) c of Some d \<Rightarrow> d | None \<Rightarrow> c)"

definition toLowerCase :: "string \<Rightarrow> string" where
  "toLowerCase s = map lower_char s"

text \<open>
  \<^verbatim>\<open>
  function mapStatusToEnum(status) {
    const s = String(status || '').toLowerCase();
    if (s === 'pending') return 0;
    if (s === 'resolved') return 1;
    if (s === 'verified') return 2;
    return 0; // default to Pending
  }
  \<close>
\<close>

definition mapStatusToEnum :: "string option \<Rightarrow> nat" where
  "mapStatusToEnum status =
     (let s = toLowerCase (or_else status '''') in
      if s = ''pending'' then 0
      else if s = ''resolved'' then 1
      else if s = ''verified'' then 2
      else 0)"

text \<open>
  The Status Mapper as the specification words it: the comparison ignores the case of
  letters, the three status words map to 0, 1 and 2, anything else to 0. Two characters
  are the same letter when they are equal or are the upper-case and the lower-case form
  of one letter.
\<close>

definition same_letter :: "char \<Rightarrow> char \<Rightarrow> bool" where
  "same_letter a b =
     (a = b \<or> (a, b) \<in> set (zip upper_letters lower_letters)
            \<or> (b, a) \<in> set (zip upper_letters lower_letters))"

definition eq_ignore_case :: "string \<Rightarrow> string \<Rightarrow> bool" where
  "eq_ignore_case s t = list_all2 same_letter s t"

definition StatusMapper_map :: "string \<Rightarrow> nat" where
  "StatusMapper_map s =
     (if eq_ignore_case s ''pending'' then 0
      else if eq_ignore_case s ''resolved'' then 1
      else if eq_ignore_case s ''verified'' then 2
      else 0)"

section \<open>In-flight keys of status updates\<close>

text \<open>
  The key of a status update is the string \<^verbatim>\<open>`${complaintId}:${statusEnum}`\<close>: the
  decimal numerals of the id and of the status code with a colon between them. The id
  is an integer (the primary key of the complaints table).
\<close>

definition digit_char :: "nat \<Rightarrow> char" where
  "digit_char d = ''0123456789'' ! d"

function decimal :: "nat \<Rightarrow> string" where
  "decimal n =
     (if n < 10 then [digit_char n] else decimal (n div 10) @ [digit_char (n mod 10)])"
  by pat_completeness auto
termination
  by (relation "measure id") auto

declare decimal.simps [simp del]

definition number_to_string :: "int \<Rightarrow> string" where
  "number_to_string i =
     (if i < 0 then CHR ''-'' # decimal (nat (- i)) else decimal (nat i))"

definition status_key :: "int \<Rightarrow> nat \<Rightarrow> string" where
  "status_key complaintId statusEnum =
     number_to_string complaintId @ '':'' @ decimal statusEnum"

section \<open>State of the engine\<close>

text \<open>
  A row of the \<^verbatim>\<open>complaints\<close> table, with the columns the engine reads. The columns
  \<^verbatim>\<open>municipal_id\<close>, \<^verbatim>\<open>locationAB\<close> and \<^verbatim>\<open>category_id\<close> are only passed on
  to the contract as strings; \<^verbatim>\<open>title\<close> is only printed and is left out.
\<close>

record complaint =
  complaint_id :: int
  status :: "string option"
  municipal_id :: "string option"
  locationAB :: "string option"
  category_id :: "string option"
  tx_hash :: "string option"

text \<open>The two writes of the contract's ABI, as the engine calls them.\<close>

datatype ledger_call =
    LogComplaint int string string
  | UpdateComplaintStatus int nat

text \<open>
  The lines the engine prints, in the order of the \<^verbatim>\<open>console\<close> statements of the
  source; the lines of one message are one constructor.
\<close>

datatype log_line =
    AlreadyBeingProcessed int
  | AlreadyHasTxHash int
  | ProcessingComplaint int
  | CallingLogComplaint int string string
  | TransactionSent string
  | TransactionConfirmed string
  | FailedToUpdateTxHash int
  | DatabaseUpdated int
  | ErrorMinting int string
  | FailedToStoreError
  | StatusAlreadyInFlight int
  | UpdatingStatus int nat
  | StatusTxSent string
  | StatusConfirmed
  | FailedStatusUpdate int
  | CheckingExisting
  | ErrorFetching
  | NoPending
  | Found nat
  | FinishedExisting
  | ErrorInProcessExisting
  | SettingUpListener
  | NewComplaintDetected
  | StatusChanged int

text \<open>
  An \<^verbatim>\<open>async\<close> function runs without interruption up to its next \<^verbatim>\<open>await\<close>.
  A suspended call is recorded by the \<^verbatim>\<open>await\<close> it stands at, with the local
  variables it still needs.
\<close>

datatype mint_pc =
    AwaitLogComplaint          \<comment> \<open>\<^verbatim>\<open>await contract.logComplaint(complaintId, city, category)\<close>\<close>
  | AwaitTxWait                \<comment> \<open>\<^verbatim>\<open>await tx.wait()\<close>\<close>
  | AwaitUpdateTxHash string   \<comment> \<open>\<^verbatim>\<open>await supabase...update({ tx_hash: receipt.hash })\<close>\<close>
  | AwaitStoreError string     \<comment> \<open>\<^verbatim>\<open>await supabase...update({ tx_hash: `ERROR: ...` })\<close>\<close>

datatype status_pc =
    AwaitUpdateStatus          \<comment> \<open>\<^verbatim>\<open>await contract.updateComplaintStatus(complaintId, statusEnum)\<close>\<close>
  | AwaitStatusWait            \<comment> \<open>\<^verbatim>\<open>await tx.wait()\<close>\<close>

text \<open>
  What the awaited promise settles with: it is fulfilled with a value (a transaction
  hash, where there is one), fulfilled with a result object whose \<^verbatim>\<open>error\<close> is set
  (the record store's way to report a failure), or rejected with an error: an
  \<^verbatim>\<open>Error\<close> object, as the contract and the record store clients throw, of which the
  engine reads the \<^verbatim>\<open>message\<close>, a string.
\<close>

datatype response =
    Resolved string
  | ResolvedError
  | Rejected string

text \<open>
  The calls in progress: the handler of an INSERT notification (in its delay of one
  second, then inside \<^verbatim>\<open>mintComplaintToBlockchain\<close>), the handler of an UPDATE
  notification (inside \<^verbatim>\<open>updateComplaintStatusOnChain\<close>), and \<^verbatim>\<open>startServer\<close>
  (inside \<^verbatim>\<open>processExistingComplaints\<close>: at the query, inside the mint of the
  current row, or in the delay of two seconds, with the rows that remain).
\<close>

datatype task =
    Finished
  | InsertHandler complaint
  | MintTask int mint_pc
  | StatusTask int string status_pc
  | BacklogQuery
  | BacklogMint int mint_pc "complaint list"
  | BacklogDelay "complaint list"

text \<open>
  The engine: its two in-flight sets, the \<^verbatim>\<open>complaints\<close> table as the engine's reads
  and writes see it, whether the listener is set up, the suspended calls (a call is
  named by its position), what has been printed, and the calls of the contract made so
  far, in their order.
\<close>

record sys =
  processingComplaints :: "int set"
  processingStatusUpdates :: "string set"
  db :: "complaint list"
  listening :: bool
  tasks :: "task list"
  console :: "log_line list"
  calls :: "ledger_call list"

definition say :: "log_line \<Rightarrow> sys \<Rightarrow> sys" where
  "say l s = s\<lparr>console := console s @ [l]\<rparr>"

section \<open>Mint Coordinator: \<^verbatim>\<open>mintComplaintToBlockchain\<close>\<close>

text \<open>
  The part of the function before its first \<^verbatim>\<open>await\<close>: the two guards, the
  insertion into \<^verbatim>\<open>processingComplaints\<close>, the payload and the call of the contract.
  The result is \<open>None\<close> when the function has returned and the suspended call otherwise.
\<close>

definition mintComplaintToBlockchain :: "complaint \<Rightarrow> sys \<Rightarrow> mint_pc option \<times> sys" where
  "mintComplaintToBlockchain complaint s =
     (let complaintId = complaint_id complaint in
      if complaintId \<in> processingComplaints s then
        (None, say (AlreadyBeingProcessed complaintId) s)
      else if truthy (tx_hash complaint) then
        (None, say (AlreadyHasTxHash complaintId) s)
      else
        let city = or_else (js_or (municipal_id complaint) (locationAB complaint)) ''Unknown'';
            category = or_else (category_id complaint) ''General''
        in (Some AwaitLogComplaint,
            s\<lparr>processingComplaints := insert complaintId (processingComplaints s),
              console := console s @
                [ProcessingComplaint complaintId, CallingLogComplaint complaintId city category],
              calls := calls s @ [LogComplaint complaintId city category]\<rparr>))"

text \<open>\<^verbatim>\<open>supabase.from("complaints").update({ tx_hash: v }).eq("id", complaintId)\<close>\<close>

definition update_tx_hash :: "int \<Rightarrow> string \<Rightarrow> complaint list \<Rightarrow> complaint list" where
  "update_tx_hash complaintId v rows =
     map (\<lambda>r. if complaint_id r = complaintId then r\<lparr>tx_hash := Some v\<rparr> else r) rows"

text \<open>
  The \<^verbatim>\<open>catch\<close> block up to its \<^verbatim>\<open>await\<close>: the text to store is
  \<^verbatim>\<open>`ERROR: ${error.message.substring(0, 200)}`\<close>.
\<close>

definition mint_catch :: "int \<Rightarrow> string \<Rightarrow> sys \<Rightarrow> mint_pc option \<times> sys" where
  "mint_catch complaintId message s =
     (Some (AwaitStoreError (''ERROR: '' @ take 200 message)),
      say (ErrorMinting complaintId message) s)"

text \<open>The \<^verbatim>\<open>finally\<close> block: \<^verbatim>\<open>processingComplaints.delete(complaintId)\<close>.\<close>

definition mint_finally :: "int \<Rightarrow> sys \<Rightarrow> sys" where
  "mint_finally complaintId s =
     s\<lparr>processingComplaints := processingComplaints s - {complaintId}\<rparr>"

text \<open>
  The function from one \<^verbatim>\<open>await\<close> to the next. A response that the awaited promise
  cannot give (a result object from the contract) leaves the call where it is.
\<close>

fun mint_resume :: "int \<Rightarrow> mint_pc \<Rightarrow> response \<Rightarrow> sys \<Rightarrow> mint_pc option \<times> sys" where
  "mint_resume k AwaitLogComplaint (Resolved h) s =
     (Some AwaitTxWait, say (TransactionSent h) s)"
| "mint_resume k AwaitLogComplaint (Rejected m) s = mint_catch k m s"
| "mint_resume k AwaitTxWait (Resolved h) s =
     (Some (AwaitUpdateTxHash h), say (TransactionConfirmed h) s)"
| "mint_resume k AwaitTxWait (Rejected m) s = mint_catch k m s"
| "mint_resume k (AwaitUpdateTxHash h) (Resolved x) s =
     (None, mint_finally k (say (DatabaseUpdated k) (s\<lparr>db := update_tx_hash k h (db s)\<rparr>)))"
| "mint_resume k (AwaitUpdateTxHash h) ResolvedError s =
     (None, mint_finally k (say (FailedToUpdateTxHash k) s))"
| "mint_resume k (AwaitUpdateTxHash h) (Rejected m) s = mint_catch k m s"
| "mint_resume k (AwaitStoreError t) (Resolved x) s =
     (None, mint_finally k (s\<lparr>db := update_tx_hash k t (db s)\<rparr>))"
| "mint_resume k (AwaitStoreError t) ResolvedError s = (None, mint_finally k s)"
| "mint_resume k (AwaitStoreError t) (Rejected m) s =
     (None, mint_finally k (say FailedToStoreError s))"
| "mint_resume k pc r s = (Some pc, s)"

section \<open>Status Sync Coordinator: \<^verbatim>\<open>updateComplaintStatusOnChain\<close>\<close>

definition updateComplaintStatusOnChain ::
  "complaint \<Rightarrow> sys \<Rightarrow> status_pc option \<times> sys" where
  "updateComplaintStatusOnChain complaint s =
     (let complaintId = complaint_id complaint;
          statusEnum = mapStatusToEnum (status complaint);
          key = status_key complaintId statusEnum
      in
      if key \<in> processingStatusUpdates s then
        (None, say (StatusAlreadyInFlight complaintId) s)
      else
        (Some AwaitUpdateStatus,
         s\<lparr>processingStatusUpdates := insert key (processingStatusUpdates s),
           console := console s @ [UpdatingStatus complaintId statusEnum],
           calls := calls s @ [UpdateComplaintStatus complaintId statusEnum]\<rparr>))"

definition status_finally :: "string \<Rightarrow> sys \<Rightarrow> sys" where
  "status_finally key s =
     s\<lparr>processingStatusUpdates := processingStatusUpdates s - {key}\<rparr>"

fun status_resume ::
  "int \<Rightarrow> string \<Rightarrow> status_pc \<Rightarrow> response \<Rightarrow> sys \<Rightarrow> status_pc option \<times> sys" where
  "status_resume k key AwaitUpdateStatus (Resolved h) s =
     (Some AwaitStatusWait, say (StatusTxSent h) s)"
| "status_resume k key AwaitStatusWait (Resolved h) s =
     (None, status_finally key (say StatusConfirmed s))"
| "status_resume k key pc (Rejected m) s =
     (None, status_finally key (say (FailedStatusUpdate k) s))"
| "status_resume k key pc ResolvedError s = (Some pc, s)"

section \<open>Backlog Reconciler and start of the server\<close>

text \<open>
  The query of \<^verbatim>\<open>processExistingComplaints\<close>:
  \<^verbatim>\<open>select("id, title, category_id, locationAB, municipal_id, tx_hash")
  .is("tx_hash", null).order("id", { ascending: true })\<close>.
  The column \<^verbatim>\<open>status\<close> is not selected.
\<close>

definition select_tx_hash_null :: "complaint list \<Rightarrow> complaint list" where
  "select_tx_hash_null rows =
     map (\<lambda>r. r\<lparr>status := None\<rparr>)
       (sort_key complaint_id (filter (\<lambda>r. tx_hash r = None) rows))"

text \<open>
  \<^verbatim>\<open>setupRealtimeListener\<close>, called by \<^verbatim>\<open>startServer\<close> once
  \<^verbatim>\<open>processExistingComplaints\<close> has returned: from here on notifications are handled.
\<close>

definition setupRealtimeListener :: "sys \<Rightarrow> sys" where
  "setupRealtimeListener s = (say SettingUpListener s)\<lparr>listening := True\<rparr>"

text \<open>
  The head of the loop \<^verbatim>\<open>for (const complaint of complaints)\<close>: with no row left
  the function returns and the listener is set up; otherwise the next row is minted,
  and the loop waits for that call and then for two seconds.
\<close>

definition backlog_next :: "complaint list \<Rightarrow> sys \<Rightarrow> task \<times> sys" where
  "backlog_next complaints s =
     (case complaints of
        [] \<Rightarrow> (Finished, setupRealtimeListener (say FinishedExisting s))
      | complaint # rest \<Rightarrow>
          (case mintComplaintToBlockchain complaint s of
             (None, s') \<Rightarrow> (BacklogDelay rest, s')
           | (Some pc, s') \<Rightarrow> (BacklogMint (complaint_id complaint) pc rest, s')))"

section \<open>The event loop\<close>

text \<open>One suspended call continues with the response to its \<^verbatim>\<open>await\<close>.\<close>

fun resume_task :: "task \<Rightarrow> response \<Rightarrow> sys \<Rightarrow> task \<times> sys" where
  "resume_task (InsertHandler c) (Resolved x) s =
     (case mintComplaintToBlockchain c s of
        (None, s') \<Rightarrow> (Finished, s')
      | (Some pc, s') \<Rightarrow> (MintTask (complaint_id c) pc, s'))"
| "resume_task (MintTask k pc) r s =
     (case mint_resume k pc r s of
        (None, s') \<Rightarrow> (Finished, s')
      | (Some pc', s') \<Rightarrow> (MintTask k pc', s'))"
| "resume_task (StatusTask k key pc) r s =
     (case status_resume k key pc r s of
        (None, s') \<Rightarrow> (Finished, s')
      | (Some pc', s') \<Rightarrow> (StatusTask k key pc', s'))"
| "resume_task BacklogQuery (Resolved x) s =
     (let complaints = select_tx_hash_null (db s) in
      if complaints = [] then (Finished, setupRealtimeListener (say NoPending s))
      else backlog_next complaints (say (Found (length complaints)) s))"
| "resume_task BacklogQuery ResolvedError s =
     (Finished, setupRealtimeListener (say ErrorFetching s))"
| "resume_task BacklogQuery (Rejected m) s =
     (Finished, setupRealtimeListener (say ErrorInProcessExisting s))"
| "resume_task (BacklogMint k pc rest) r s =
     (case mint_resume k pc r s of
        (None, s') \<Rightarrow> (BacklogDelay rest, s')
      | (Some pc', s') \<Rightarrow> (BacklogMint k pc' rest, s'))"
| "resume_task (BacklogDelay rest) (Resolved x) s = backlog_next rest s"
| "resume_task t r s = (t, s)"

text \<open>
  What can happen next: a suspended call is resumed, or the change feed delivers a
  notification, which is handled only once the listener is set up. The handler of an
  INSERT notification waits one second before it mints. The handler of an UPDATE
  notification compares \<^verbatim>\<open>prev.status\<close> with \<^verbatim>\<open>curr.status\<close> and calls the status
  update when they differ and the new status is truthy; a notification carries a row with
  an id, so the handler's test for a missing id never fires here.
\<close>

datatype event =
    Resume nat response
  | InsertNotification complaint
  | UpdateNotification "string option" complaint

fun step :: "event \<Rightarrow> sys \<Rightarrow> sys" where
  "step (Resume tid r) s =
     (if tid < length (tasks s) then
        (case resume_task (tasks s ! tid) r s of
           (t', s') \<Rightarrow> s'\<lparr>tasks := (tasks s')[tid := t']\<rparr>)
      else s)"
| "step (InsertNotification c) s =
     (if listening s then
        (say NewComplaintDetected s)\<lparr>tasks := tasks s @ [InsertHandler c]\<rparr>
      else s)"
| "step (UpdateNotification prev_status cur) s =
     (if listening s \<and> prev_status \<noteq> status cur \<and> truthy (status cur) then
        (case updateComplaintStatusOnChain cur (say (StatusChanged (complaint_id cur)) s) of
           (None, s') \<Rightarrow> s'
         | (Some pc, s') \<Rightarrow>
             s'\<lparr>tasks := tasks s' @
               [StatusTask (complaint_id cur)
                  (status_key (complaint_id cur) (mapStatusToEnum (status cur))) pc]\<rparr>)
      else s)"

definition run :: "event list \<Rightarrow> sys \<Rightarrow> sys" where
  "run es s = fold step es s"

text \<open>
  \<^verbatim>\<open>startServer()\<close> on a table with the given rows: both in-flight sets are empty,
  \<^verbatim>\<open>processExistingComplaints\<close> has printed its first line and waits for its query.
\<close>

definition startServer :: "complaint list \<Rightarrow> sys" where
  "startServer rows =
     \<lparr>processingComplaints = {}, processingStatusUpdates = {}, db = rows,
      listening = False, tasks = [BacklogQuery], console = [CheckingExisting], calls = []\<rparr>"

section \<open>Definitions used to state the properties\<close>

text \<open>
  The guards of the Mint Coordinator in the order the specification gives them: first
  the receipt (a receipt is set when the field is not null), second the in-flight key;
  only then the payload and the submission.
\<close>

definition MintCoordinator_mint :: "complaint \<Rightarrow> sys \<Rightarrow> mint_pc option \<times> sys" where
  "MintCoordinator_mint record s =
     (if tx_hash record \<noteq> None then
        (None, say (AlreadyHasTxHash (complaint_id record)) s)
      else if complaint_id record \<in> processingComplaints s then
        (None, say (AlreadyBeingProcessed (complaint_id record)) s)
      else
        let city = or_else (js_or (municipal_id record) (locationAB record)) ''Unknown'';
            category = or_else (category_id record) ''General''
        in (Some AwaitLogComplaint,
            s\<lparr>processingComplaints := insert (complaint_id record) (processingComplaints s),
              console := console s @
                [ProcessingComplaint (complaint_id record),
                 CallingLogComplaint (complaint_id record) city category],
              calls := calls s @ [LogComplaint (complaint_id record) city category]\<rparr>))"

text \<open>A running engine with nothing in flight, and a row, for the concrete instances.\<close>

definition idle :: sys where
  "idle = \<lparr>processingComplaints = {}, processingStatusUpdates = {}, db = [],
           listening = True, tasks = [Finished], console = [], calls = []\<rparr>"

definition example_complaint :: "int \<Rightarrow> string option \<Rightarrow> complaint" where
  "example_complaint k h =
     \<lparr>complaint_id = k, status = Some ''pending'', municipal_id = Some ''Pune'',
      locationAB = None, category_id = None, tx_hash = h\<rparr>"

text \<open>
  The effect of one event on the calls of the contract and on the two in-flight sets:
  either no call is made and no key is added, or one mint passes its guards, or one
  status update passes its guard.
\<close>

definition quiet :: "sys \<Rightarrow> sys \<Rightarrow> bool" where
  "quiet s s' \<longleftrightarrow>
     calls s' = calls s \<and>
     processingComplaints s' \<subseteq> processingComplaints s \<and>
     processingStatusUpdates s' \<subseteq> processingStatusUpdates s"

definition starts_mint :: "sys \<Rightarrow> sys \<Rightarrow> bool" where
  "starts_mint s s' \<longleftrightarrow>
     (\<exists>k city category.
        k \<notin> processingComplaints s \<and>
        calls s' = calls s @ [LogComplaint k city category] \<and>
        processingComplaints s' = insert k (processingComplaints s) \<and>
        processingStatusUpdates s' = processingStatusUpdates s)"

definition starts_status :: "sys \<Rightarrow> sys \<Rightarrow> bool" where
  "starts_status s s' \<longleftrightarrow>
     (\<exists>k code.
        status_key k code \<notin> processingStatusUpdates s \<and>
        calls s' = calls s @ [UpdateComplaintStatus k code] \<and>
        processingStatusUpdates s' = insert (status_key k code) (processingStatusUpdates s) \<and>
        processingComplaints s' = processingComplaints s)"

definition effect :: "sys \<Rightarrow> sys \<Rightarrow> bool" where
  "effect s s' \<longleftrightarrow> quiet s s' \<or> starts_mint s s' \<or> starts_status s s'"

text \<open>
  What a resumed call leaves as it is: the list of suspended calls (the event loop
  records where the call itself now stands), the listener once it is set up, and the
  record store apart from one write of \<^verbatim>\<open>tx_hash\<close>.
\<close>

definition frame :: "sys \<Rightarrow> sys \<Rightarrow> bool" where
  "frame s s' \<longleftrightarrow>
     tasks s' = tasks s \<and>
     (listening s \<longrightarrow> listening s') \<and>
     (db s' = db s \<or> (\<exists>k v. db s' = update_tx_hash k v (db s)))"

text \<open>The number of \<^verbatim>\<open>logComplaint\<close> calls made for an id.\<close>

fun is_create :: "int \<Rightarrow> ledger_call \<Rightarrow> bool" where
  "is_create k (LogComplaint k' city category) = (k' = k)"
| "is_create k (UpdateComplaintStatus k' code) = False"

definition creates :: "int \<Rightarrow> sys \<Rightarrow> nat" where
  "creates k s = length (filter (is_create k) (calls s))"

text \<open>The number of \<^verbatim>\<open>updateComplaintStatus\<close> calls made for an id and a status code.\<close>

definition status_updates :: "int \<Rightarrow> nat \<Rightarrow> sys \<Rightarrow> nat" where
  "status_updates k code s = count_list (calls s) (UpdateComplaintStatus k code)"

text \<open>
  An id (a status key) stays in its in-flight set along a run: it is in the set in the
  state the run starts from and after each of its events.
\<close>

fun in_flight_throughout :: "int \<Rightarrow> event list \<Rightarrow> sys \<Rightarrow> bool" where
  "in_flight_throughout k [] s = (k \<in> processingComplaints s)"
| "in_flight_throughout k (e # es) s =
     (k \<in> processingComplaints s \<and> in_flight_throughout k es (step e s))"

fun status_in_flight_throughout :: "string \<Rightarrow> event list \<Rightarrow> sys \<Rightarrow> bool" where
  "status_in_flight_throughout key [] s = (key \<in> processingStatusUpdates s)"
| "status_in_flight_throughout key (e # es) s =
     (key \<in> processingStatusUpdates s \<and> status_in_flight_throughout key es (step e s))"

text \<open>
  The handlers of two INSERT notifications for the same row, both in their delay.
\<close>

definition two_inserts :: sys where
  "two_inserts = idle\<lparr>tasks :=
     [Finished, InsertHandler (example_complaint 7 None), InsertHandler (example_complaint 7 None)]\<rparr>"


text \<open>A row whose status has been set, for the notifications of an update.\<close>

definition with_status :: "string \<Rightarrow> complaint" where
  "with_status st = (example_complaint 7 (Some ''0xabc''))\<lparr>status := Some st\<rparr>"

text \<open>
  A mint of row 7 suspended at a given \<open>await\<close>, called by the handler of a
  notification or by the backlog loop, and a status update of row 7 to \<open>resolved\<close>
  waiting for its receipt.
\<close>

definition minting :: "mint_pc \<Rightarrow> sys" where
  "minting pc = idle\<lparr>processingComplaints := {7}, db := [example_complaint 7 None],
     tasks := [Finished, MintTask 7 pc]\<rparr>"

definition reconciling :: "mint_pc \<Rightarrow> sys" where
  "reconciling pc = idle\<lparr>processingComplaints := {7}, db := [example_complaint 7 None],
     listening := False, tasks := [BacklogMint 7 pc []]\<rparr>"

definition updating :: sys where
  "updating = idle\<lparr>processingStatusUpdates := {''7:1''},
     tasks := [Finished, StatusTask 7 ''7:1'' AwaitStatusWait]\<rparr>"

text \<open>
  A suspended call has a submission outstanding at the contract when it waits for the
  transaction to be sent or for its receipt. The Submission Serializer of the
  specification admits one submission at a time.
\<close>

fun awaits_ledger :: "task \<Rightarrow> bool" where
  "awaits_ledger (MintTask k AwaitLogComplaint) = True"
| "awaits_ledger (MintTask k AwaitTxWait) = True"
| "awaits_ledger (BacklogMint k AwaitLogComplaint rest) = True"
| "awaits_ledger (BacklogMint k AwaitTxWait rest) = True"
| "awaits_ledger (StatusTask k key pc) = True"
| "awaits_ledger t = False"

definition outstanding :: "sys \<Rightarrow> nat" where
  "outstanding s = length (filter awaits_ledger (tasks s))"








text \<open>
  The key a suspended call holds: a mint holds the id of its complaint from the insertion
  into \<^verbatim>\<open>processingComplaints\<close> to its \<^verbatim>\<open>finally\<close> block, a status update holds its
  key string. A set of keys is held by a list of calls when its elements are exactly the
  keys the calls hold and no two calls hold the same key.
\<close>

fun mint_key :: "task \<Rightarrow> int option" where
  "mint_key (MintTask k pc) = Some k"
| "mint_key (BacklogMint k pc rest) = Some k"
| "mint_key t = None"

fun status_task_key :: "task \<Rightarrow> string option" where
  "status_task_key (StatusTask k key pc) = Some key"
| "status_task_key t = None"

definition held :: "('t \<Rightarrow> 'k option) \<Rightarrow> 't list \<Rightarrow> 'k set \<Rightarrow> bool" where
  "held f ts K \<longleftrightarrow>
     (\<forall>k. k \<in> K \<longleftrightarrow> (\<exists>i < length ts. f (ts ! i) = Some k)) \<and>
     (\<forall>i < length ts. \<forall>j < length ts.
        f (ts ! i) \<noteq> None \<longrightarrow> f (ts ! i) = f (ts ! j) \<longrightarrow> i = j)"

text \<open>
  The mint a call is inside, with the \<open>await\<close> it stands at, and likewise the status
  update; the number of \<open>await\<close>s a call can still have before it at most; and the
  responses an awaited promise can give (the contract never answers with a result object).
\<close>

fun mint_call :: "task \<Rightarrow> (int \<times> mint_pc) option" where
  "mint_call (MintTask k pc) = Some (k, pc)"
| "mint_call (BacklogMint k pc rest) = Some (k, pc)"
| "mint_call t = None"

fun status_call :: "task \<Rightarrow> (string \<times> status_pc) option" where
  "status_call (StatusTask k key pc) = Some (key, pc)"
| "status_call t = None"

fun awaits_left :: "mint_pc \<Rightarrow> nat" where
  "awaits_left AwaitLogComplaint = 4"
| "awaits_left AwaitTxWait = 3"
| "awaits_left (AwaitUpdateTxHash h) = 2"
| "awaits_left (AwaitStoreError t) = 1"

fun status_awaits_left :: "status_pc \<Rightarrow> nat" where
  "status_awaits_left AwaitUpdateStatus = 2"
| "status_awaits_left AwaitStatusWait = 1"

fun answers :: "mint_pc \<Rightarrow> response \<Rightarrow> bool" where
  "answers AwaitLogComplaint ResolvedError = False"
| "answers AwaitTxWait ResolvedError = False"
| "answers pc r = True"

section \<open>Properties of the Status Mapper\<close>

lemma lower_char_iff:
  "b \<in> set lower_letters \<Longrightarrow> lower_char a = b \<longleftrightarrow> same_letter a b"
  unfolding lower_char_def same_letter_def upper_letters_def lower_letters_def
  by (elim disjE | simp)+

lemma toLowerCase_iff:
  "set w \<subseteq> set lower_letters \<Longrightarrow> toLowerCase s = w \<longleftrightarrow> eq_ignore_case s w"
  unfolding toLowerCase_def eq_ignore_case_def
proof (induction s arbitrary: w)
  case Nil
  then show ?case by auto
next
  case (Cons a s)
  then show ?case by (cases w) (auto simp: lower_char_iff)
qed

lemma status_words_lower:
  "set ''pending'' \<subseteq> set lower_letters"
  "set ''resolved'' \<subseteq> set lower_letters"
  "set ''verified'' \<subseteq> set lower_letters"
  by (simp_all add: lower_letters_def)

lemma mapStatusToEnum_le_2: "mapStatusToEnum v \<le> 2"
  by (simp add: mapStatusToEnum_def Let_def)

lemma mapStatusToEnum_examples:
  "mapStatusToEnum (Some ''PENDING'') = 0"
  "mapStatusToEnum (Some ''Resolved'') = 1"
  "mapStatusToEnum (Some ''verified'') = 2"
  "mapStatusToEnum (Some '''') = 0"
  "mapStatusToEnum (Some ''bogus'') = 0"
  by (simp_all add: mapStatusToEnum_def toLowerCase_def lower_char_def or_else_def
      upper_letters_def lower_letters_def)

text \<open>
  C6. The Status Mapper is a total function on strings that ignores case: it agrees, on
  every string, with the mapper of the specification (\<open>pending\<close> to 0, \<open>resolved\<close> to 1,
  \<open>verified\<close> to 2, anything else, the empty string included, to 0), and a missing
  status maps to 0 as well.
\<close>

theorem mapStatusToEnum_is_StatusMapper:
  "mapStatusToEnum (Some s) = StatusMapper_map s \<and> mapStatusToEnum None = 0"
proof -
  have "toLowerCase (or_else (Some s) '''') = toLowerCase s"
    by (simp add: or_else_def toLowerCase_def)
  then have "mapStatusToEnum (Some s) = StatusMapper_map s"
    by (simp add: mapStatusToEnum_def StatusMapper_map_def Let_def
        toLowerCase_iff [OF status_words_lower(1)]
        toLowerCase_iff [OF status_words_lower(2)]
        toLowerCase_iff [OF status_words_lower(3)])
  moreover have "mapStatusToEnum None = 0"
    by (simp add: mapStatusToEnum_def or_else_def toLowerCase_def)
  ultimately show ?thesis by simp
qed

section \<open>What one step changes\<close>

lemma say_fields [simp]:
  "processingComplaints (say l s) = processingComplaints s"
  "processingStatusUpdates (say l s) = processingStatusUpdates s"
  "db (say l s) = db s"
  "listening (say l s) = listening s"
  "tasks (say l s) = tasks s"
  "calls (say l s) = calls s"
  "console (say l s) = console s @ [l]"
  by (simp_all add: say_def)

lemma mint_finally_fields [simp]:
  "processingComplaints (mint_finally k s) = processingComplaints s - {k}"
  "processingStatusUpdates (mint_finally k s) = processingStatusUpdates s"
  "db (mint_finally k s) = db s"
  "listening (mint_finally k s) = listening s"
  "tasks (mint_finally k s) = tasks s"
  "calls (mint_finally k s) = calls s"
  "console (mint_finally k s) = console s"
  by (simp_all add: mint_finally_def)

lemma status_finally_fields [simp]:
  "processingComplaints (status_finally key s) = processingComplaints s"
  "processingStatusUpdates (status_finally key s) = processingStatusUpdates s - {key}"
  "db (status_finally key s) = db s"
  "listening (status_finally key s) = listening s"
  "tasks (status_finally key s) = tasks s"
  "calls (status_finally key s) = calls s"
  "console (status_finally key s) = console s"
  by (simp_all add: status_finally_def)

lemma setupRealtimeListener_fields [simp]:
  "processingComplaints (setupRealtimeListener s) = processingComplaints s"
  "processingStatusUpdates (setupRealtimeListener s) = processingStatusUpdates s"
  "db (setupRealtimeListener s) = db s"
  "listening (setupRealtimeListener s) = True"
  "tasks (setupRealtimeListener s) = tasks s"
  "calls (setupRealtimeListener s) = calls s"
  "console (setupRealtimeListener s) = console s @ [SettingUpListener]"
  by (simp_all add: setupRealtimeListener_def)

lemma mint_busy:
  "complaint_id c \<in> processingComplaints s \<Longrightarrow>
   mintComplaintToBlockchain c s = (None, say (AlreadyBeingProcessed (complaint_id c)) s)"
  by (simp add: mintComplaintToBlockchain_def)

lemma mint_minted:
  "complaint_id c \<notin> processingComplaints s \<Longrightarrow> truthy (tx_hash c) \<Longrightarrow>
   mintComplaintToBlockchain c s = (None, say (AlreadyHasTxHash (complaint_id c)) s)"
  by (simp add: mintComplaintToBlockchain_def)

lemma mint_submit:
  "complaint_id c \<notin> processingComplaints s \<Longrightarrow> \<not> truthy (tx_hash c) \<Longrightarrow>
   mintComplaintToBlockchain c s =
     (Some AwaitLogComplaint,
      s\<lparr>processingComplaints := insert (complaint_id c) (processingComplaints s),
        console := console s @
          [ProcessingComplaint (complaint_id c),
           CallingLogComplaint (complaint_id c)
             (or_else (js_or (municipal_id c) (locationAB c)) ''Unknown'')
             (or_else (category_id c) ''General'')],
        calls := calls s @
          [LogComplaint (complaint_id c)
             (or_else (js_or (municipal_id c) (locationAB c)) ''Unknown'')
             (or_else (category_id c) ''General'')]\<rparr>)"
  by (simp add: mintComplaintToBlockchain_def Let_def)

lemma mint_catch_eq:
  "mint_catch k m s =
     (Some (AwaitStoreError (''ERROR: '' @ take 200 m)), say (ErrorMinting k m) s)"
  by (simp add: mint_catch_def)

text \<open>The mint either returns, or stands at its first \<open>await\<close> with the call made.\<close>

lemma mint_cases:
  obtains
    (busy) "complaint_id c \<in> processingComplaints s"
      "mintComplaintToBlockchain c s = (None, say (AlreadyBeingProcessed (complaint_id c)) s)"
  | (minted) "complaint_id c \<notin> processingComplaints s" "truthy (tx_hash c)"
      "mintComplaintToBlockchain c s = (None, say (AlreadyHasTxHash (complaint_id c)) s)"
  | (submit) s' where "complaint_id c \<notin> processingComplaints s" "\<not> truthy (tx_hash c)"
      "mintComplaintToBlockchain c s = (Some AwaitLogComplaint, s')"
      "processingComplaints s' = insert (complaint_id c) (processingComplaints s)"
      "processingStatusUpdates s' = processingStatusUpdates s"
      "db s' = db s" "listening s' = listening s" "tasks s' = tasks s"
      "calls s' = calls s @ [LogComplaint (complaint_id c)
          (or_else (js_or (municipal_id c) (locationAB c)) ''Unknown'')
          (or_else (category_id c) ''General'')]"
      "console s' = console s @ [ProcessingComplaint (complaint_id c),
          CallingLogComplaint (complaint_id c)
            (or_else (js_or (municipal_id c) (locationAB c)) ''Unknown'')
            (or_else (category_id c) ''General'')]"
proof (cases "complaint_id c \<in> processingComplaints s")
  case True
  then show ?thesis using busy mint_busy by blast
next
  case out: False
  show ?thesis
  proof (cases "truthy (tx_hash c)")
    case True
    with out show ?thesis using minted mint_minted by blast
  next
    case False
    show ?thesis
      by (rule submit [OF out False mint_submit [OF out False]]) simp_all
  qed
qed

lemma status_busy:
  "status_key (complaint_id c) (mapStatusToEnum (status c)) \<in> processingStatusUpdates s \<Longrightarrow>
   updateComplaintStatusOnChain c s = (None, say (StatusAlreadyInFlight (complaint_id c)) s)"
  by (simp add: updateComplaintStatusOnChain_def Let_def)

lemma status_submit:
  "status_key (complaint_id c) (mapStatusToEnum (status c)) \<notin> processingStatusUpdates s \<Longrightarrow>
   updateComplaintStatusOnChain c s =
     (Some AwaitUpdateStatus,
      s\<lparr>processingStatusUpdates :=
          insert (status_key (complaint_id c) (mapStatusToEnum (status c)))
            (processingStatusUpdates s),
        console := console s @
          [UpdatingStatus (complaint_id c) (mapStatusToEnum (status c))],
        calls := calls s @
          [UpdateComplaintStatus (complaint_id c) (mapStatusToEnum (status c))]\<rparr>)"
  by (simp add: updateComplaintStatusOnChain_def Let_def)

text \<open>
  A resumed mint stands at a later \<open>await\<close> with the in-flight set as it was, or has
  returned with its id deleted from the set; it makes no call of the contract.
\<close>

lemma mint_resume_cases:
  obtains
    (waits) pc' s' where "mint_resume k pc r s = (Some pc', s')"
      "processingComplaints s' = processingComplaints s" "db s' = db s"
      "processingStatusUpdates s' = processingStatusUpdates s"
      "listening s' = listening s" "tasks s' = tasks s" "calls s' = calls s"
  | (returns) s' where "mint_resume k pc r s = (None, s')"
      "processingComplaints s' = processingComplaints s - {k}"
      "db s' = db s \<or> (\<exists>v. db s' = update_tx_hash k v (db s))"
      "processingStatusUpdates s' = processingStatusUpdates s"
      "listening s' = listening s" "tasks s' = tasks s" "calls s' = calls s"
proof (cases "fst (mint_resume k pc r s)")
  case None
  have "mint_resume k pc r s = (None, snd (mint_resume k pc r s))"
    using None by (simp add: prod_eq_iff)
  moreover have "processingComplaints (snd (mint_resume k pc r s)) = processingComplaints s - {k}"
    using None by (cases pc; cases r) (simp_all add: mint_catch_eq)
  moreover have "db (snd (mint_resume k pc r s)) = db s \<or>
      (\<exists>v. db (snd (mint_resume k pc r s)) = update_tx_hash k v (db s))"
    by (cases pc; cases r) (auto simp: mint_catch_eq)
  moreover have "processingStatusUpdates (snd (mint_resume k pc r s)) = processingStatusUpdates s"
    "listening (snd (mint_resume k pc r s)) = listening s"
    "tasks (snd (mint_resume k pc r s)) = tasks s"
    "calls (snd (mint_resume k pc r s)) = calls s"
    by (cases pc; cases r; simp add: mint_catch_eq)+
  ultimately show ?thesis using returns by blast
next
  case (Some pc')
  have "mint_resume k pc r s = (Some pc', snd (mint_resume k pc r s))"
    using Some by (simp add: prod_eq_iff)
  moreover have "processingComplaints (snd (mint_resume k pc r s)) = processingComplaints s"
    "db (snd (mint_resume k pc r s)) = db s"
    using Some by (cases pc; cases r; simp add: mint_catch_eq)+
  moreover have "processingStatusUpdates (snd (mint_resume k pc r s)) = processingStatusUpdates s"
    "listening (snd (mint_resume k pc r s)) = listening s"
    "tasks (snd (mint_resume k pc r s)) = tasks s"
    "calls (snd (mint_resume k pc r s)) = calls s"
    by (cases pc; cases r; simp add: mint_catch_eq)+
  ultimately show ?thesis using waits by blast
qed

lemma status_resume_cases:
  obtains
    (waits) pc' s' where "status_resume k key pc r s = (Some pc', s')"
      "processingStatusUpdates s' = processingStatusUpdates s"
      "processingComplaints s' = processingComplaints s" "db s' = db s"
      "listening s' = listening s" "tasks s' = tasks s" "calls s' = calls s"
  | (returns) s' where "status_resume k key pc r s = (None, s')"
      "processingStatusUpdates s' = processingStatusUpdates s - {key}"
      "processingComplaints s' = processingComplaints s" "db s' = db s"
      "listening s' = listening s" "tasks s' = tasks s" "calls s' = calls s"
proof (cases "fst (status_resume k key pc r s)")
  case None
  have "status_resume k key pc r s = (None, snd (status_resume k key pc r s))"
    using None by (simp add: prod_eq_iff)
  moreover have
    "processingStatusUpdates (snd (status_resume k key pc r s)) = processingStatusUpdates s - {key}"
    using None by (cases pc; cases r) simp_all
  moreover have "processingComplaints (snd (status_resume k key pc r s)) = processingComplaints s"
    "db (snd (status_resume k key pc r s)) = db s"
    "listening (snd (status_resume k key pc r s)) = listening s"
    "tasks (snd (status_resume k key pc r s)) = tasks s"
    "calls (snd (status_resume k key pc r s)) = calls s"
    by (cases pc; cases r; simp)+
  ultimately show ?thesis using returns by blast
next
  case (Some pc')
  have "status_resume k key pc r s = (Some pc', snd (status_resume k key pc r s))"
    using Some by (simp add: prod_eq_iff)
  moreover have
    "processingStatusUpdates (snd (status_resume k key pc r s)) = processingStatusUpdates s"
    using Some by (cases pc; cases r) simp_all
  moreover have "processingComplaints (snd (status_resume k key pc r s)) = processingComplaints s"
    "db (snd (status_resume k key pc r s)) = db s"
    "listening (snd (status_resume k key pc r s)) = listening s"
    "tasks (snd (status_resume k key pc r s)) = tasks s"
    "calls (snd (status_resume k key pc r s)) = calls s"
    by (cases pc; cases r; simp)+
  ultimately show ?thesis using waits by blast
qed

lemma mint_skips_truthy:
  assumes "truthy (tx_hash r)"
  shows "fst (mintComplaintToBlockchain r s) = None"
    and "calls (snd (mintComplaintToBlockchain r s)) = calls s"
    and "complaint_id r \<notin> processingComplaints s \<Longrightarrow>
         mintComplaintToBlockchain r s = (None, say (AlreadyHasTxHash (complaint_id r)) s)"
  using assms by (cases r s rule: mint_cases; simp)+

lemma quiet_refl: "quiet s s"
  by (simp add: quiet_def)

lemma frame_refl: "frame s s"
  by (simp add: frame_def)

lemma quiet_say: "quiet s s' \<Longrightarrow> quiet s (say l s')"
  by (simp add: quiet_def)

lemma frame_say: "frame s s' \<Longrightarrow> frame s (say l s')"
  by (simp add: frame_def)

lemma quiet_setup: "quiet s s' \<Longrightarrow> quiet s (setupRealtimeListener s')"
  by (simp add: quiet_def)

lemma frame_setup: "frame s s' \<Longrightarrow> frame s (setupRealtimeListener s')"
  by (simp add: frame_def)

lemma quiet_say_left: "quiet (say l s) s' \<Longrightarrow> quiet s s'"
  by (simp add: quiet_def)

lemma starts_mint_say_left: "starts_mint (say l s) s' \<Longrightarrow> starts_mint s s'"
  by (simp add: starts_mint_def)

lemma frame_say_left: "frame (say l s) s' \<Longrightarrow> frame s s'"
  by (simp add: frame_def)

lemma mint_effect:
  "frame s (snd (mintComplaintToBlockchain c s)) \<and>
   (quiet s (snd (mintComplaintToBlockchain c s)) \<or>
    starts_mint s (snd (mintComplaintToBlockchain c s)))"
proof (cases c s rule: mint_cases)
  case busy
  then show ?thesis by (simp add: frame_def quiet_def)
next
  case minted
  then show ?thesis by (simp add: frame_def quiet_def)
next
  case (submit s')
  then have "starts_mint s s'"
    unfolding starts_mint_def by blast
  with submit show ?thesis by (simp add: frame_def)
qed

lemma mint_resume_effect:
  "frame s (snd (mint_resume k pc r s)) \<and> quiet s (snd (mint_resume k pc r s))"
proof (cases k pc r s rule: mint_resume_cases)
  case (waits pc' s')
  then show ?thesis by (simp add: frame_def quiet_def)
next
  case (returns s')
  then show ?thesis by (auto simp: frame_def quiet_def)
qed

lemma status_resume_effect:
  "frame s (snd (status_resume k key pc r s)) \<and> quiet s (snd (status_resume k key pc r s))"
proof (cases k key pc r s rule: status_resume_cases)
  case (waits pc' s')
  then show ?thesis by (simp add: frame_def quiet_def)
next
  case (returns s')
  then show ?thesis by (auto simp: frame_def quiet_def)
qed

lemma backlog_next_effect:
  "frame s (snd (backlog_next rest s)) \<and>
   (quiet s (snd (backlog_next rest s)) \<or> starts_mint s (snd (backlog_next rest s)))"
proof (cases rest)
  case Nil
  then show ?thesis
    by (simp add: backlog_next_def quiet_setup quiet_say quiet_refl frame_setup frame_say frame_refl)
next
  case (Cons c cs)
  then have "snd (backlog_next rest s) = snd (mintComplaintToBlockchain c s)"
    by (simp add: backlog_next_def split: prod.splits option.splits)
  then show ?thesis using mint_effect [of s c] by simp
qed

lemma resume_task_effect:
  "frame s (snd (resume_task t r s)) \<and>
   (quiet s (snd (resume_task t r s)) \<or> starts_mint s (snd (resume_task t r s)))"
proof (cases t)
  case Finished
  then show ?thesis by (simp add: quiet_refl frame_refl)
next
  case (InsertHandler c)
  show ?thesis
  proof (cases r)
    case (Resolved x)
    with InsertHandler have "snd (resume_task t r s) = snd (mintComplaintToBlockchain c s)"
      by (simp split: prod.splits option.splits)
    then show ?thesis using mint_effect [of s c] by simp
  qed (simp_all add: InsertHandler quiet_refl frame_refl)
next
  case (MintTask k pc)
  then have "snd (resume_task t r s) = snd (mint_resume k pc r s)"
    by (simp split: prod.splits option.splits)
  then show ?thesis using mint_resume_effect [of s k pc r] by simp
next
  case (StatusTask k key pc)
  then have "snd (resume_task t r s) = snd (status_resume k key pc r s)"
    by (simp split: prod.splits option.splits)
  then show ?thesis using status_resume_effect [of s k key pc r] by simp
next
  case BacklogQuery
  show ?thesis
  proof (cases r)
    case (Resolved x)
    show ?thesis
    proof (cases "select_tx_hash_null (db s) = []")
      case True
      with Resolved BacklogQuery show ?thesis
        by (simp add: quiet_setup quiet_say quiet_refl frame_setup frame_say frame_refl)
    next
      case False
      with Resolved BacklogQuery show ?thesis
        using backlog_next_effect
          [of "say (Found (length (select_tx_hash_null (db s)))) s" "select_tx_hash_null (db s)"]
        by (auto simp: Let_def dest: quiet_say_left starts_mint_say_left frame_say_left)
    qed
  qed (simp_all add: BacklogQuery quiet_setup quiet_say quiet_refl frame_setup frame_say frame_refl)
next
  case (BacklogMint k pc rest)
  then have "snd (resume_task t r s) = snd (mint_resume k pc r s)"
    by (simp split: prod.splits option.splits)
  then show ?thesis using mint_resume_effect [of s k pc r] by simp
next
  case (BacklogDelay rest)
  then show ?thesis using backlog_next_effect [of s rest]
    by (cases r) (simp_all add: quiet_refl frame_refl)
qed

lemma tasks_update_fields [simp]:
  "processingComplaints (s\<lparr>tasks := ts\<rparr>) = processingComplaints s"
  "processingStatusUpdates (s\<lparr>tasks := ts\<rparr>) = processingStatusUpdates s"
  "db (s\<lparr>tasks := ts\<rparr>) = db s"
  "listening (s\<lparr>tasks := ts\<rparr>) = listening s"
  "calls (s\<lparr>tasks := ts\<rparr>) = calls s"
  "console (s\<lparr>tasks := ts\<rparr>) = console s"
  by simp_all

lemma step_Resume:
  "tid < length (tasks s) \<Longrightarrow>
   step (Resume tid r) s =
     (snd (resume_task (tasks s ! tid) r s))
       \<lparr>tasks := (tasks s)[tid := fst (resume_task (tasks s ! tid) r s)]\<rparr>"
proof -
  assume tid: "tid < length (tasks s)"
  obtain t' s' where res: "resume_task (tasks s ! tid) r s = (t', s')"
    by (cases "resume_task (tasks s ! tid) r s")
  have "tasks s' = tasks s"
    using resume_task_effect [of s "tasks s ! tid" r] res by (simp add: frame_def)
  with tid res show ?thesis by simp
qed

lemma step_Resume_out: "\<not> tid < length (tasks s) \<Longrightarrow> step (Resume tid r) s = s"
  by simp

lemma status_effect:
  "frame s (snd (updateComplaintStatusOnChain c s)) \<and>
   (quiet s (snd (updateComplaintStatusOnChain c s)) \<or>
    starts_status s (snd (updateComplaintStatusOnChain c s)))"
proof (cases "status_key (complaint_id c) (mapStatusToEnum (status c)) \<in> processingStatusUpdates s")
  case True
  then show ?thesis by (simp add: status_busy frame_def quiet_def)
next
  case False
  then have "starts_status s (snd (updateComplaintStatusOnChain c s))"
    unfolding starts_status_def by (auto simp: status_submit)
  moreover have "frame s (snd (updateComplaintStatusOnChain c s))"
    using False by (simp add: status_submit frame_def)
  ultimately show ?thesis by simp
qed

lemma status_db: "db (snd (updateComplaintStatusOnChain c s)) = db s"
  by (cases "status_key (complaint_id c) (mapStatusToEnum (status c)) \<in> processingStatusUpdates s")
    (simp_all add: status_busy status_submit)

text \<open>Every event is quiet, starts one mint or starts one status update.\<close>

lemma step_effect: "effect s (step e s)"
proof (cases e)
  case (Resume tid r)
  show ?thesis
  proof (cases "tid < length (tasks s)")
    case True
    then show ?thesis
      using resume_task_effect [of s "tasks s ! tid" r]
      by (simp only: Resume step_Resume effect_def quiet_def starts_mint_def tasks_update_fields)
        blast
  next
    case False
    then show ?thesis by (simp add: Resume effect_def quiet_def)
  qed
next
  case (InsertNotification c)
  then show ?thesis by (simp add: effect_def quiet_def)
next
  case (UpdateNotification prev cur)
  show ?thesis
  proof (cases "listening s \<and> prev \<noteq> status cur \<and> truthy (status cur)")
    case False
    then show ?thesis using UpdateNotification by (auto simp: effect_def quiet_def)
  next
    case True
    let ?s0 = "say (StatusChanged (complaint_id cur)) s"
    let ?res = "updateComplaintStatusOnChain cur ?s0"
    have calls: "calls (step e s) = calls (snd ?res)"
      and pc: "processingComplaints (step e s) = processingComplaints (snd ?res)"
      and ps: "processingStatusUpdates (step e s) = processingStatusUpdates (snd ?res)"
      using True UpdateNotification by (simp_all split: prod.splits option.splits)
    have "quiet s (snd ?res) \<or> starts_status s (snd ?res)"
      using status_effect [of ?s0 cur] by (simp add: quiet_def starts_status_def)
    then show ?thesis
      unfolding effect_def quiet_def starts_status_def calls pc ps by blast
  qed
qed

lemma step_listening: "listening s \<Longrightarrow> listening (step e s)"
proof (cases e)
  case (Resume tid r)
  assume "listening s"
  then show ?thesis
    using resume_task_effect [of s "tasks s ! tid" r]
    by (cases "tid < length (tasks s)")
      (simp_all add: Resume step_Resume step_Resume_out frame_def del: step.simps)
next
  case (InsertNotification c)
  assume "listening s"
  then show ?thesis using InsertNotification by simp
next
  case (UpdateNotification prev cur)
  assume "listening s"
  then show ?thesis
    using status_effect [of "say (StatusChanged (complaint_id cur)) s" cur] UpdateNotification
    by (auto simp: frame_def split: prod.splits option.splits)
qed

lemma step_db:
  "db (step e s) = db s \<or> (\<exists>k v. db (step e s) = update_tx_hash k v (db s))"
proof (cases e)
  case (Resume tid r)
  then show ?thesis
    using resume_task_effect [of s "tasks s ! tid" r]
    by (cases "tid < length (tasks s)")
      (simp_all add: step_Resume step_Resume_out frame_def del: step.simps)
next
  case (InsertNotification c)
  then show ?thesis by simp
next
  case (UpdateNotification prev cur)
  then show ?thesis
    using status_db [of cur "say (StatusChanged (complaint_id cur)) s"]
    by (auto split: prod.splits option.splits)
qed

lemma run_Nil [simp]: "run [] s = s"
  by (simp add: run_def)

lemma run_Cons [simp]: "run (e # es) s = run es (step e s)"
  by (simp add: run_def)

lemma run_append: "run (es @ es') s = run es' (run es s)"
  by (simp add: run_def)

section \<open>The key of a status update determines the id and the code\<close>

lemma digit_char_inj: "a < 10 \<Longrightarrow> b < 10 \<Longrightarrow> digit_char a = digit_char b \<Longrightarrow> a = b"
proof -
  assume "a < 10" "b < 10" "digit_char a = digit_char b"
  moreover have "distinct ''0123456789''" by simp
  ultimately show ?thesis
    unfolding digit_char_def by (simp add: nth_eq_iff_index_eq)
qed

lemma digit_char_in: "d < 10 \<Longrightarrow> digit_char d \<in> set ''0123456789''"
  unfolding digit_char_def by (rule nth_mem) simp

lemma decimal_digits: "set (decimal n) \<subseteq> set ''0123456789''"
proof (induction n rule: decimal.induct)
  case (1 n)
  show ?case
  proof (cases "n < 10")
    case True
    then show ?thesis using digit_char_in [of n] by (subst decimal.simps) simp
  next
    case False
    then show ?thesis using 1 digit_char_in [of "n mod 10"]
      by (subst decimal.simps) simp
  qed
qed

lemma decimal_nonempty: "decimal n \<noteq> []"
  by (subst decimal.simps) simp

lemma decimal_inj: "decimal a = decimal b \<Longrightarrow> a = b"
proof (induction a arbitrary: b rule: decimal.induct)
  case (1 n)
  show ?case
  proof (cases "n < 10")
    case n: True
    show ?thesis
    proof (cases "b < 10")
      case True
      with n 1(2) show ?thesis
        by (simp add: decimal.simps [of n] decimal.simps [of b] digit_char_inj)
    next
      case False
      with n 1(2) decimal_nonempty [of "b div 10"] show ?thesis
        by (simp add: decimal.simps [of n] decimal.simps [of b])
    qed
  next
    case n: False
    show ?thesis
    proof (cases "b < 10")
      case True
      with n 1(2) decimal_nonempty [of "n div 10"] show ?thesis
        by (simp add: decimal.simps [of n] decimal.simps [of b])
    next
      case False
      with n 1(2) have "decimal (n div 10) = decimal (b div 10)"
        and "digit_char (n mod 10) = digit_char (b mod 10)"
        by (simp_all add: decimal.simps [of n] decimal.simps [of b])
      then have "n div 10 = b div 10" and "n mod 10 = b mod 10"
        using 1(1) [OF n] by (simp_all add: digit_char_inj)
      then show ?thesis by (metis div_mult_mod_eq)
    qed
  qed
qed

lemma number_to_string_inj: "number_to_string a = number_to_string b \<Longrightarrow> a = b"
proof -
  assume eq: "number_to_string a = number_to_string b"
  have nominus: "\<And>n. hd (decimal n) \<noteq> CHR ''-''"
  proof -
    fix n
    have "hd (decimal n) \<in> set (decimal n)" using decimal_nonempty by simp
    then have "hd (decimal n) \<in> set ''0123456789''" using decimal_digits by blast
    then show "hd (decimal n) \<noteq> CHR ''-''" by auto
  qed
  show ?thesis
  proof (cases "a < 0")
    case a: True
    show ?thesis
    proof (cases "b < 0")
      case True
      with a eq have "decimal (nat (- a)) = decimal (nat (- b))"
        by (simp add: number_to_string_def)
      then have "nat (- a) = nat (- b)" by (rule decimal_inj)
      with a True show ?thesis by simp
    next
      case False
      with a eq have "CHR ''-'' # decimal (nat (- a)) = decimal (nat b)"
        by (simp add: number_to_string_def)
      then have "hd (decimal (nat b)) = CHR ''-''" by (metis list.sel(1))
      with nominus show ?thesis by blast
    qed
  next
    case a: False
    show ?thesis
    proof (cases "b < 0")
      case True
      with a eq have "decimal (nat a) = CHR ''-'' # decimal (nat (- b))"
        by (simp add: number_to_string_def)
      then have "hd (decimal (nat a)) = CHR ''-''" by (metis list.sel(1))
      with nominus show ?thesis by blast
    next
      case False
      with a eq have "decimal (nat a) = decimal (nat b)"
        by (simp add: number_to_string_def)
      then have "nat a = nat b" by (rule decimal_inj)
      with a False show ?thesis by simp
    qed
  qed
qed

lemma number_to_string_no_colon: "CHR '':'' \<notin> set (number_to_string a)"
  using decimal_digits [of "nat a"] decimal_digits [of "nat (- a)"]
  by (auto simp: number_to_string_def)

lemma decimal_no_colon: "CHR '':'' \<notin> set (decimal a)"
  using decimal_digits [of a] by auto

lemma split_at_sep:
  "x \<notin> set a \<Longrightarrow> x \<notin> set c \<Longrightarrow> a @ x # b = c @ x # d \<Longrightarrow> a = c \<and> b = d"
proof (induction a arbitrary: c)
  case Nil
  then show ?case by (cases c) auto
next
  case (Cons y a)
  then show ?case by (cases c) auto
qed

lemma status_key_inj:
  "status_key i a = status_key j b \<longleftrightarrow> i = j \<and> a = b"
proof
  assume "status_key i a = status_key j b"
  then have "number_to_string i = number_to_string j \<and> decimal a = decimal b"
    unfolding status_key_def
    using split_at_sep [OF number_to_string_no_colon number_to_string_no_colon] by simp
  then show "i = j \<and> a = b"
    using number_to_string_inj decimal_inj by blast
qed simp

section \<open>Each in-flight key is held by one call\<close>

lemma held_same:
  assumes "held f ts K" and "n < length ts" and "f t' = f (ts ! n)"
  shows "held f (ts[n := t']) K"
proof -
  have nth: "\<And>j. j < length ts \<Longrightarrow> f (ts[n := t'] ! j) = f (ts ! j)"
    using assms(2,3) by (simp add: nth_list_update)
  have "(\<forall>k. k \<in> K \<longleftrightarrow> (\<exists>i < length ts. f (ts[n := t'] ! i) = Some k))"
    using assms(1) nth unfolding held_def by (metis (no_types, lifting))
  moreover have "\<forall>i < length ts. \<forall>j < length ts.
        f (ts[n := t'] ! i) \<noteq> None \<longrightarrow> f (ts[n := t'] ! i) = f (ts[n := t'] ! j) \<longrightarrow> i = j"
    using assms(1) nth unfolding held_def by (metis (no_types, lifting))
  ultimately show ?thesis
    unfolding held_def by simp
qed

lemma held_release:
  assumes "held f ts K" and "i < length ts" and "f (ts ! i) = Some k" and "f t' = None"
  shows "held f (ts[i := t']) (K - {k})"
  unfolding held_def
proof (intro conjI allI impI)
  fix k'
  show "k' \<in> K - {k} \<longleftrightarrow> (\<exists>j < length (ts[i := t']). f (ts[i := t'] ! j) = Some k')"
  proof
    assume "k' \<in> K - {k}"
    then have "k' \<in> K" and ne: "k' \<noteq> k" by auto
    then obtain j where j: "j < length ts" "f (ts ! j) = Some k'"
      using assms(1) unfolding held_def by blast
    with ne assms(3) have "j \<noteq> i" by auto
    with j show "\<exists>j < length (ts[i := t']). f (ts[i := t'] ! j) = Some k'"
      by (auto simp: nth_list_update)
  next
    assume "\<exists>j < length (ts[i := t']). f (ts[i := t'] ! j) = Some k'"
    then obtain j where j: "j < length ts" "f (ts[i := t'] ! j) = Some k'" by auto
    with assms(4) have ji: "j \<noteq> i" by (auto simp: nth_list_update)
    with j have fj: "f (ts ! j) = Some k'" by (simp add: nth_list_update)
    then have "k' \<in> K" using assms(1) j(1) unfolding held_def by blast
    moreover have "k' \<noteq> k"
    proof
      assume "k' = k"
      with fj assms(3) have "f (ts ! i) = f (ts ! j)" by simp
      with assms(1,2,3) j(1) have "i = j" unfolding held_def by auto
      with ji show False by simp
    qed
    ultimately show "k' \<in> K - {k}" by simp
  qed
next
  fix a b
  assume "a < length (ts[i := t'])" "b < length (ts[i := t'])"
    "f (ts[i := t'] ! a) \<noteq> None" "f (ts[i := t'] ! a) = f (ts[i := t'] ! b)"
  then show "a = b"
    using assms(1,4) unfolding held_def
    by (cases "a = i"; cases "b = i") (auto simp: nth_list_update)
qed

lemma held_acquire:
  assumes "held f ts K" and "i < length ts" and "f (ts ! i) = None" and "f t' = Some k"
    and "k \<notin> K"
  shows "held f (ts[i := t']) (insert k K)"
  unfolding held_def
proof (intro conjI allI impI)
  fix k'
  show "k' \<in> insert k K \<longleftrightarrow> (\<exists>j < length (ts[i := t']). f (ts[i := t'] ! j) = Some k')"
  proof
    assume "k' \<in> insert k K"
    then consider "k' = k" | "k' \<in> K" by auto
    then show "\<exists>j < length (ts[i := t']). f (ts[i := t'] ! j) = Some k'"
    proof cases
      case 1
      with assms(2,4) show ?thesis by (auto simp: nth_list_update)
    next
      case 2
      then obtain j where j: "j < length ts" "f (ts ! j) = Some k'"
        using assms(1) unfolding held_def by blast
      with assms(3) have "j \<noteq> i" by auto
      with j show ?thesis by (auto simp: nth_list_update)
    qed
  next
    assume "\<exists>j < length (ts[i := t']). f (ts[i := t'] ! j) = Some k'"
    then obtain j where j: "j < length ts" "f (ts[i := t'] ! j) = Some k'" by auto
    show "k' \<in> insert k K"
    proof (cases "j = i")
      case True
      with j assms(2,4) show ?thesis by simp
    next
      case False
      with j have "f (ts ! j) = Some k'" by (simp add: nth_list_update)
      then have "k' \<in> K" using assms(1) j(1) unfolding held_def by blast
      then show ?thesis by simp
    qed
  qed
next
  fix a b
  assume ab: "a < length (ts[i := t'])" "b < length (ts[i := t'])"
    "f (ts[i := t'] ! a) \<noteq> None" "f (ts[i := t'] ! a) = f (ts[i := t'] ! b)"
  have fresh: "\<And>j. j < length ts \<Longrightarrow> f (ts ! j) \<noteq> Some k"
    using assms(1,5) unfolding held_def by blast
  show "a = b"
  proof (cases "a = i")
    case ai: True
    show ?thesis
    proof (cases "b = i")
      case True
      with ai show ?thesis by simp
    next
      case False
      with ab ai assms(2,4) have "f (ts ! b) = Some k" by (simp add: nth_list_update)
      with fresh ab(2) show ?thesis by simp
    qed
  next
    case ai: False
    show ?thesis
    proof (cases "b = i")
      case True
      with ab ai assms(2,4) have "f (ts ! a) = Some k" by (simp add: nth_list_update)
      with fresh ab(1) show ?thesis by simp
    next
      case False
      with ab ai assms(1) show ?thesis unfolding held_def by (simp add: nth_list_update)
    qed
  qed
qed

lemma held_append_none:
  assumes "held f ts K" and "f t = None"
  shows "held f (ts @ [t]) K"
  unfolding held_def
proof (intro conjI allI impI)
  fix k
  show "k \<in> K \<longleftrightarrow> (\<exists>i < length (ts @ [t]). f ((ts @ [t]) ! i) = Some k)"
  proof
    assume "k \<in> K"
    then obtain i where "i < length ts" "f (ts ! i) = Some k"
      using assms(1) unfolding held_def by blast
    then show "\<exists>i < length (ts @ [t]). f ((ts @ [t]) ! i) = Some k"
      by (auto simp: nth_append intro!: exI [of _ i])
  next
    assume "\<exists>i < length (ts @ [t]). f ((ts @ [t]) ! i) = Some k"
    then obtain i where i: "i < length (ts @ [t])" "f ((ts @ [t]) ! i) = Some k" by blast
    with assms(2) have "i < length ts" by (cases "i = length ts") (auto simp: nth_append)
    with i have "f (ts ! i) = Some k" by (simp add: nth_append)
    with \<open>i < length ts\<close> show "k \<in> K" using assms(1) unfolding held_def by blast
  qed
next
  fix a b
  assume ab: "a < length (ts @ [t])" "b < length (ts @ [t])"
    "f ((ts @ [t]) ! a) \<noteq> None" "f ((ts @ [t]) ! a) = f ((ts @ [t]) ! b)"
  with assms(2) have "a < length ts" by (cases "a = length ts") (auto simp: nth_append)
  moreover with ab assms(2) have "b < length ts"
    by (cases "b = length ts") (auto simp: nth_append)
  ultimately show "a = b"
    using ab assms(1) unfolding held_def by (simp add: nth_append)
qed

lemma held_append_acquire:
  assumes "held f ts K" and "f t = Some k" and "k \<notin> K"
  shows "held f (ts @ [t]) (insert k K)"
  unfolding held_def
proof (intro conjI allI impI)
  have fresh: "\<And>j. j < length ts \<Longrightarrow> f (ts ! j) \<noteq> Some k"
    using assms(1,3) unfolding held_def by blast
  fix k'
  show "k' \<in> insert k K \<longleftrightarrow> (\<exists>i < length (ts @ [t]). f ((ts @ [t]) ! i) = Some k')"
  proof
    assume "k' \<in> insert k K"
    then consider "k' = k" | "k' \<in> K" by auto
    then show "\<exists>i < length (ts @ [t]). f ((ts @ [t]) ! i) = Some k'"
    proof cases
      case 1
      with assms(2) show ?thesis by (auto intro!: exI [of _ "length ts"])
    next
      case 2
      then obtain i where "i < length ts" "f (ts ! i) = Some k'"
        using assms(1) unfolding held_def by blast
      then show ?thesis by (auto simp: nth_append intro!: exI [of _ i])
    qed
  next
    assume "\<exists>i < length (ts @ [t]). f ((ts @ [t]) ! i) = Some k'"
    then obtain i where i: "i < length (ts @ [t])" "f ((ts @ [t]) ! i) = Some k'" by blast
    show "k' \<in> insert k K"
    proof (cases "i = length ts")
      case True
      with i assms(2) show ?thesis by simp
    next
      case False
      with i have il: "i < length ts" by simp
      with i have "f (ts ! i) = Some k'" by (simp add: nth_append)
      with il have "k' \<in> K" using assms(1) unfolding held_def by blast
      then show ?thesis by simp
    qed
  qed
next
  have fresh: "\<And>j. j < length ts \<Longrightarrow> f (ts ! j) \<noteq> Some k"
    using assms(1,3) unfolding held_def by blast
  fix a b
  assume ab: "a < length (ts @ [t])" "b < length (ts @ [t])"
    "f ((ts @ [t]) ! a) \<noteq> None" "f ((ts @ [t]) ! a) = f ((ts @ [t]) ! b)"
  show "a = b"
  proof (cases "a = length ts")
    case al: True
    show ?thesis
    proof (cases "b = length ts")
      case True
      with al show ?thesis by simp
    next
      case False
      with ab(2) have bl: "b < length ts" by simp
      with ab(4) al assms(2) have "f (ts ! b) = Some k" by (simp add: nth_append)
      with fresh bl show ?thesis by blast
    qed
  next
    case False
    with ab(1) have al: "a < length ts" by simp
    show ?thesis
    proof (cases "b = length ts")
      case True
      with ab(4) al assms(2) have "f (ts ! a) = Some k" by (simp add: nth_append)
      with fresh al show ?thesis by blast
    next
      case False
      with ab(2) have "b < length ts" by simp
      with al ab(3,4) assms(1) show ?thesis unfolding held_def by (simp add: nth_append)
    qed
  qed
qed

lemma backlog_next_cases:
  obtains
    (finished) "rest = []" "fst (backlog_next rest s) = Finished"
      "processingComplaints (snd (backlog_next rest s)) = processingComplaints s"
      "processingStatusUpdates (snd (backlog_next rest s)) = processingStatusUpdates s"
  | (skipped) cs where "fst (backlog_next rest s) = BacklogDelay cs"
      "processingComplaints (snd (backlog_next rest s)) = processingComplaints s"
      "processingStatusUpdates (snd (backlog_next rest s)) = processingStatusUpdates s"
  | (minting) k cs where "fst (backlog_next rest s) = BacklogMint k AwaitLogComplaint cs"
      "k \<notin> processingComplaints s"
      "processingComplaints (snd (backlog_next rest s)) = insert k (processingComplaints s)"
      "processingStatusUpdates (snd (backlog_next rest s)) = processingStatusUpdates s"
proof (cases rest)
  case Nil
  then show ?thesis using finished by (simp add: backlog_next_def)
next
  case (Cons c cs)
  show ?thesis
  proof (cases c s rule: mint_cases)
    case busy
    with Cons show ?thesis using skipped [of cs] by (simp add: backlog_next_def)
  next
    case minted
    with Cons show ?thesis using skipped [of cs] by (simp add: backlog_next_def)
  next
    case (submit s')
    with Cons show ?thesis using minting [of "complaint_id c" cs] by (simp add: backlog_next_def)
  qed
qed

lemma resume_task_mint_key:
  "(mint_key (fst (resume_task t r s)) = mint_key t \<and>
    processingComplaints (snd (resume_task t r s)) = processingComplaints s) \<or>
   (\<exists>k. mint_key t = Some k \<and> mint_key (fst (resume_task t r s)) = None \<and>
        processingComplaints (snd (resume_task t r s)) = processingComplaints s - {k}) \<or>
   (\<exists>k. mint_key t = None \<and> mint_key (fst (resume_task t r s)) = Some k \<and>
        k \<notin> processingComplaints s \<and>
        processingComplaints (snd (resume_task t r s)) = insert k (processingComplaints s))"
proof (cases t)
  case Finished
  then show ?thesis by simp
next
  case (InsertHandler c)
  show ?thesis
  proof (cases r)
    case (Resolved x)
    show ?thesis
      by (cases c s rule: mint_cases) (simp_all add: InsertHandler Resolved)
  qed (simp_all add: InsertHandler)
next
  case (MintTask k pc)
  show ?thesis
    by (cases k pc r s rule: mint_resume_cases) (simp_all add: MintTask)
next
  case (StatusTask k key pc)
  show ?thesis
    by (cases k key pc r s rule: status_resume_cases) (simp_all add: StatusTask)
next
  case BacklogQuery
  show ?thesis
  proof (cases r)
    case (Resolved x)
    show ?thesis
    proof (cases "select_tx_hash_null (db s) = []")
      case True
      with Resolved BacklogQuery show ?thesis by simp
    next
      case False
      let ?s = "say (Found (length (select_tx_hash_null (db s)))) s"
      have eq: "resume_task t r s = backlog_next (select_tx_hash_null (db s)) ?s"
        using False Resolved BacklogQuery by (simp add: Let_def)
      show ?thesis
        unfolding eq
        by (cases "select_tx_hash_null (db s)" ?s rule: backlog_next_cases)
          (simp_all add: BacklogQuery)
    qed
  qed (simp_all add: BacklogQuery)
next
  case (BacklogMint k pc rest)
  show ?thesis
    by (cases k pc r s rule: mint_resume_cases) (simp_all add: BacklogMint)
next
  case (BacklogDelay rest)
  show ?thesis
  proof (cases r)
    case (Resolved x)
    show ?thesis
      by (cases rest s rule: backlog_next_cases) (simp_all add: BacklogDelay Resolved)
  qed (simp_all add: BacklogDelay)
qed

lemma resume_task_status_key:
  "(status_task_key (fst (resume_task t r s)) = status_task_key t \<and>
    processingStatusUpdates (snd (resume_task t r s)) = processingStatusUpdates s) \<or>
   (\<exists>key. status_task_key t = Some key \<and> status_task_key (fst (resume_task t r s)) = None \<and>
        processingStatusUpdates (snd (resume_task t r s)) = processingStatusUpdates s - {key})"
proof (cases t)
  case Finished
  then show ?thesis by simp
next
  case (InsertHandler c)
  show ?thesis
  proof (cases r)
    case (Resolved x)
    show ?thesis
      by (cases c s rule: mint_cases) (simp_all add: InsertHandler Resolved)
  qed (simp_all add: InsertHandler)
next
  case (MintTask k pc)
  show ?thesis
    by (cases k pc r s rule: mint_resume_cases) (simp_all add: MintTask)
next
  case (StatusTask k key pc)
  show ?thesis
    by (cases k key pc r s rule: status_resume_cases) (simp_all add: StatusTask)
next
  case BacklogQuery
  show ?thesis
  proof (cases r)
    case (Resolved x)
    show ?thesis
    proof (cases "select_tx_hash_null (db s) = []")
      case True
      with Resolved BacklogQuery show ?thesis by simp
    next
      case False
      let ?s = "say (Found (length (select_tx_hash_null (db s)))) s"
      have eq: "resume_task t r s = backlog_next (select_tx_hash_null (db s)) ?s"
        using False Resolved BacklogQuery by (simp add: Let_def)
      show ?thesis
        unfolding eq
        by (cases "select_tx_hash_null (db s)" ?s rule: backlog_next_cases)
          (simp_all add: BacklogQuery)
    qed
  qed (simp_all add: BacklogQuery)
next
  case (BacklogMint k pc rest)
  show ?thesis
    by (cases k pc r s rule: mint_resume_cases) (simp_all add: BacklogMint)
next
  case (BacklogDelay rest)
  show ?thesis
  proof (cases r)
    case (Resolved x)
    show ?thesis
      by (cases rest s rule: backlog_next_cases) (simp_all add: BacklogDelay Resolved)
  qed (simp_all add: BacklogDelay)
qed

lemma held_step:
  assumes "held mint_key (tasks s) (processingComplaints s)"
    and "held status_task_key (tasks s) (processingStatusUpdates s)"
  shows "held mint_key (tasks (step e s)) (processingComplaints (step e s)) \<and>
         held status_task_key (tasks (step e s)) (processingStatusUpdates (step e s))"
proof (cases e)
  case (Resume tid r)
  show ?thesis
  proof (cases "tid < length (tasks s)")
    case False
    with Resume assms show ?thesis by simp
  next
    case True
    let ?res = "resume_task (tasks s ! tid) r s"
    have st: "tasks (step e s) = (tasks s)[tid := fst ?res]"
      "processingComplaints (step e s) = processingComplaints (snd ?res)"
      "processingStatusUpdates (step e s) = processingStatusUpdates (snd ?res)"
      using True by (simp_all add: Resume step_Resume del: step.simps)
    have "held mint_key ((tasks s)[tid := fst ?res]) (processingComplaints (snd ?res))"
      using resume_task_mint_key [of "tasks s ! tid" r s]
        held_same [OF assms(1) True, of "fst ?res"]
        held_release [OF assms(1) True, of _ "fst ?res"]
        held_acquire [OF assms(1) True, of "fst ?res"]
      by auto
    moreover have "held status_task_key ((tasks s)[tid := fst ?res])
        (processingStatusUpdates (snd ?res))"
      using resume_task_status_key [of "tasks s ! tid" r s]
        held_same [OF assms(2) True, of "fst ?res"]
        held_release [OF assms(2) True, of _ "fst ?res"]
      by auto
    ultimately show ?thesis by (simp only: st)
  qed
next
  case (InsertNotification c)
  show ?thesis
  proof (cases "listening s")
    case True
    with InsertNotification show ?thesis
      using held_append_none [OF assms(1), of "InsertHandler c"]
        held_append_none [OF assms(2), of "InsertHandler c"]
      by simp
  next
    case False
    with InsertNotification assms show ?thesis by simp
  qed
next
  case (UpdateNotification prev cur)
  show ?thesis
  proof (cases "listening s \<and> prev \<noteq> status cur \<and> truthy (status cur)")
    case False
    with UpdateNotification assms show ?thesis by auto
  next
    case fires: True
    let ?key = "status_key (complaint_id cur) (mapStatusToEnum (status cur))"
    show ?thesis
    proof (cases "?key \<in> processingStatusUpdates s")
      case True
      with fires UpdateNotification assms show ?thesis
        by (simp add: status_busy)
    next
      case False
      with fires UpdateNotification show ?thesis
        using held_append_none [OF assms(1), of "StatusTask (complaint_id cur) ?key AwaitUpdateStatus"]
          held_append_acquire [OF assms(2), of "StatusTask (complaint_id cur) ?key AwaitUpdateStatus" ?key]
        by (simp add: status_submit)
    qed
  qed
qed

lemma held_start:
  "held mint_key (tasks (startServer rows)) (processingComplaints (startServer rows))"
  "held status_task_key (tasks (startServer rows)) (processingStatusUpdates (startServer rows))"
  by (simp_all add: startServer_def held_def)

lemma held_run:
  "held mint_key (tasks s) (processingComplaints s) \<and>
   held status_task_key (tasks s) (processingStatusUpdates s) \<Longrightarrow>
   held mint_key (tasks (run es s)) (processingComplaints (run es s)) \<and>
   held status_task_key (tasks (run es s)) (processingStatusUpdates (run es s))"
proof (induction es arbitrary: s)
  case Nil
  then show ?case by simp
next
  case (Cons e es)
  then show ?case using held_step [of s e] by (simp del: step.simps)
qed

text \<open>
  In every state the engine can reach, the ids in \<^verbatim>\<open>processingComplaints\<close> are those of
  the mints that are suspended, one mint for each id, and the keys in
  \<^verbatim>\<open>processingStatusUpdates\<close> are those of the suspended status updates, one for each key.
\<close>

lemma keys_held_by_one_call:
  "held mint_key (tasks (run es (startServer rows)))
     (processingComplaints (run es (startServer rows)))"
  "held status_task_key (tasks (run es (startServer rows)))
     (processingStatusUpdates (run es (startServer rows)))"
  using held_run [of "startServer rows" es] held_start [of rows] by simp_all

section \<open>The guards of the Mint Coordinator\<close>

text \<open>
  C8 (as amended). Both guards come before any call of the contract, the in-flight guard
  first and the receipt guard second: a complaint whose id is in flight is skipped as
  being processed whatever its receipt; otherwise a complaint with a non-empty
  \<^verbatim>\<open>tx_hash\<close> is skipped as minted; only when both guards pass is the id inserted, the
  payload built and \<^verbatim>\<open>logComplaint\<close> called.
\<close>

theorem mint_guards:
  "(complaint_id c \<in> processingComplaints s \<longrightarrow>
      mintComplaintToBlockchain c s = (None, say (AlreadyBeingProcessed (complaint_id c)) s)) \<and>
   (complaint_id c \<notin> processingComplaints s \<and> truthy (tx_hash c) \<longrightarrow>
      mintComplaintToBlockchain c s = (None, say (AlreadyHasTxHash (complaint_id c)) s)) \<and>
   (complaint_id c \<notin> processingComplaints s \<and> \<not> truthy (tx_hash c) \<longrightarrow>
      fst (mintComplaintToBlockchain c s) = Some AwaitLogComplaint \<and>
      processingComplaints (snd (mintComplaintToBlockchain c s)) =
        insert (complaint_id c) (processingComplaints s) \<and>
      calls (snd (mintComplaintToBlockchain c s)) =
        calls s @ [LogComplaint (complaint_id c)
          (or_else (js_or (municipal_id c) (locationAB c)) ''Unknown'')
          (or_else (category_id c) ''General'')]) \<and>
   (calls (snd (mintComplaintToBlockchain c s)) \<noteq> calls s \<longrightarrow>
      complaint_id c \<notin> processingComplaints s \<and> \<not> truthy (tx_hash c))"
proof (cases "complaint_id c \<in> processingComplaints s")
  case True
  then show ?thesis by (simp add: mint_busy say_def)
next
  case False
  then show ?thesis
    by (cases "truthy (tx_hash c)") (simp_all add: mint_minted mint_submit say_def)
qed

text \<open>
  C8 as stated fails: for a complaint that has a receipt and whose id is in flight, the
  code answers with the in-flight guard, the specification's order with the receipt guard.
\<close>

theorem mint_guard_order_counterexample:
  "mintComplaintToBlockchain (example_complaint 7 (Some ''0xabc''))
     (idle\<lparr>processingComplaints := {7}\<rparr>)
   \<noteq> MintCoordinator_mint (example_complaint 7 (Some ''0xabc''))
     (idle\<lparr>processingComplaints := {7}\<rparr>)"
  by (simp add: mintComplaintToBlockchain_def MintCoordinator_mint_def example_complaint_def
      idle_def say_def)

theorem mint_guards_witness:
  "mintComplaintToBlockchain (example_complaint 7 (Some ''0xabc''))
     (idle\<lparr>processingComplaints := {7}\<rparr>)
   = (None, say (AlreadyBeingProcessed 7) (idle\<lparr>processingComplaints := {7}\<rparr>)) \<and>
   mintComplaintToBlockchain (example_complaint 7 (Some ''0xabc'')) idle
   = (None, say (AlreadyHasTxHash 7) idle) \<and>
   calls (snd (mintComplaintToBlockchain (example_complaint 7 None) idle))
   = [LogComplaint 7 ''Pune'' ''General'']"
  using mint_guards [of "example_complaint 7 (Some ''0xabc'')" "idle\<lparr>processingComplaints := {7}\<rparr>"]
    mint_guards [of "example_complaint 7 (Some ''0xabc'')" idle]
    mint_guards [of "example_complaint 7 None" idle]
  by (simp add: example_complaint_def idle_def truthy_def or_else_def js_or_def)

text \<open>
  C4 as stated fails: a complaint whose \<^verbatim>\<open>tx_hash\<close> is the empty string (not null)
  does not pass for minted, and the contract is called.
\<close>

theorem mint_empty_tx_hash_counterexample:
  "tx_hash (example_complaint 7 (Some '''')) \<noteq> None \<and>
   calls (snd (mintComplaintToBlockchain (example_complaint 7 (Some '''')) idle))
     = [LogComplaint 7 ''Pune'' ''General'']"
  by (simp add: mintComplaintToBlockchain_def example_complaint_def idle_def truthy_def
      or_else_def js_or_def Let_def)

text \<open>
  C4 (as amended). For a complaint whose \<^verbatim>\<open>tx_hash\<close> is neither null nor empty, the
  mint returns at once: no call of the contract, the record store, both in-flight sets
  and the suspended calls unchanged (one line is printed).
\<close>

theorem mint_already_minted_noop:
  "truthy (tx_hash c) \<Longrightarrow>
   fst (mintComplaintToBlockchain c s) = None \<and>
   calls (snd (mintComplaintToBlockchain c s)) = calls s \<and>
   db (snd (mintComplaintToBlockchain c s)) = db s \<and>
   processingComplaints (snd (mintComplaintToBlockchain c s)) = processingComplaints s \<and>
   processingStatusUpdates (snd (mintComplaintToBlockchain c s)) = processingStatusUpdates s \<and>
   tasks (snd (mintComplaintToBlockchain c s)) = tasks s \<and>
   listening (snd (mintComplaintToBlockchain c s)) = listening s"
  by (cases "complaint_id c \<in> processingComplaints s")
    (simp_all add: mint_busy mint_minted say_def)

theorem mint_already_minted_noop_witness:
  "truthy (tx_hash (example_complaint 7 (Some ''0xabc''))) \<and>
   fst (mintComplaintToBlockchain (example_complaint 7 (Some ''0xabc'')) idle) = None \<and>
   calls (snd (mintComplaintToBlockchain (example_complaint 7 (Some ''0xabc'')) idle)) = [] \<and>
   db (snd (mintComplaintToBlockchain (example_complaint 7 (Some ''0xabc'')) idle)) = []"
proof -
  have h: "truthy (tx_hash (example_complaint 7 (Some ''0xabc'')))"
    by (simp add: example_complaint_def truthy_def)
  show ?thesis
    using h mint_already_minted_noop [OF h, of idle] by (simp add: idle_def)
qed

section \<open>At most one create per id in flight\<close>

lemma step_creates_in_flight:
  assumes "k \<in> processingComplaints s"
  shows "creates k (step e s) = creates k s"
proof -
  have "effect s (step e s)" by (rule step_effect)
  then consider "quiet s (step e s)" | "starts_mint s (step e s)" | "starts_status s (step e s)"
    unfolding effect_def by blast
  then show ?thesis
  proof cases
    case 1
    then show ?thesis by (simp add: quiet_def creates_def)
  next
    case 2
    then obtain k' city category where "k' \<notin> processingComplaints s"
      and "calls (step e s) = calls s @ [LogComplaint k' city category]"
      unfolding starts_mint_def by blast
    with assms show ?thesis by (auto simp: creates_def)
  next
    case 3
    then show ?thesis by (auto simp: starts_status_def creates_def)
  qed
qed

lemma step_creates_acquire:
  assumes "k \<notin> processingComplaints s" and "k \<in> processingComplaints (step e s)"
  shows "creates k (step e s) = creates k s + 1"
proof -
  have "effect s (step e s)" by (rule step_effect)
  then consider "quiet s (step e s)" | "starts_mint s (step e s)" | "starts_status s (step e s)"
    unfolding effect_def by blast
  then show ?thesis
  proof cases
    case 1
    with assms show ?thesis by (auto simp: quiet_def)
  next
    case 2
    then obtain k' city category where
      "calls (step e s) = calls s @ [LogComplaint k' city category]"
      and "processingComplaints (step e s) = insert k' (processingComplaints s)"
      unfolding starts_mint_def by blast
    with assms show ?thesis by (auto simp: creates_def)
  next
    case 3
    with assms show ?thesis by (auto simp: starts_status_def)
  qed
qed

lemma run_creates_in_flight:
  "in_flight_throughout k es s \<Longrightarrow> creates k (run es s) = creates k s"
  by (induction es arbitrary: s) (simp_all add: step_creates_in_flight)

text \<open>
  C2 (as amended). Once a mint has passed the guards for an id (the event \<open>e\<close> puts the id
  into \<^verbatim>\<open>processingComplaints\<close>; the check and the insertion are one uninterrupted
  step), then for as long as the id stays in the set, whatever else happens, further
  invocations of the mint for that id included, exactly one \<^verbatim>\<open>logComplaint\<close> call has
  been made for it: every invocation in between returns at the in-flight guard without
  a call of the contract. An invocation that is passed a row whose \<^verbatim>\<open>tx_hash\<close> is set
  returns at the minted guard without a call, and an invocation that does call the
  contract found the id not in flight and the \<^verbatim>\<open>tx_hash\<close> of its row not set. In every
  state the engine can reach, the ids in the set are exactly those of the mints that have
  not returned, one mint for each id.
\<close>

theorem one_create_while_in_flight:
  assumes "k \<notin> processingComplaints s"
    and "in_flight_throughout k es (step e s)"
  shows "creates k (run es (step e s)) = creates k s + 1 \<and>
         (\<forall>c s'. complaint_id c = k \<and> k \<in> processingComplaints s' \<longrightarrow>
            mintComplaintToBlockchain c s' = (None, say (AlreadyBeingProcessed k) s')) \<and>
         (\<forall>c s'. truthy (tx_hash c) \<longrightarrow>
            fst (mintComplaintToBlockchain c s') = None \<and>
            calls (snd (mintComplaintToBlockchain c s')) = calls s') \<and>
         (\<forall>c s'. calls (snd (mintComplaintToBlockchain c s')) \<noteq> calls s' \<longrightarrow>
            complaint_id c \<notin> processingComplaints s' \<and> \<not> truthy (tx_hash c)) \<and>
         held mint_key (tasks (run es' (startServer rows)))
           (processingComplaints (run es' (startServer rows)))"
proof -
  have "k \<in> processingComplaints (step e s)"
    using assms(2) by (cases es) simp_all
  then have "creates k (step e s) = creates k s + 1"
    using assms(1) by (rule step_creates_acquire [rotated])
  then have one: "creates k (run es (step e s)) = creates k s + 1"
    using run_creates_in_flight [OF assms(2)] by simp
  have busy: "\<forall>c s'. complaint_id c = k \<and> k \<in> processingComplaints s' \<longrightarrow>
      mintComplaintToBlockchain c s' = (None, say (AlreadyBeingProcessed k) s')"
    using mint_busy by auto
  have minted: "\<forall>c s'. truthy (tx_hash c) \<longrightarrow>
      fst (mintComplaintToBlockchain c s') = None \<and>
      calls (snd (mintComplaintToBlockchain c s')) = calls s'"
    using mint_skips_truthy(1,2) by blast
  have passed: "\<forall>c s'. calls (snd (mintComplaintToBlockchain c s')) \<noteq> calls s' \<longrightarrow>
      complaint_id c \<notin> processingComplaints s' \<and> \<not> truthy (tx_hash c)"
  proof (intro allI impI)
    fix c s'
    assume "calls (snd (mintComplaintToBlockchain c s')) \<noteq> calls s'"
    then show "complaint_id c \<notin> processingComplaints s' \<and> \<not> truthy (tx_hash c)"
      by (cases c s' rule: mint_cases) simp_all
  qed
  from one busy minted passed keys_held_by_one_call(1) [of es' rows]
  show ?thesis by (intro conjI)
qed

text \<open>
  C2 as stated fails: the handlers of two INSERT notifications for the same row each mint
  the row of their notification, whose \<^verbatim>\<open>tx_hash\<close> is null. The first mint is sent,
  confirmed and written back, and returns; the delay of the second handler ends after
  that, its mint passes both guards, and \<^verbatim>\<open>logComplaint\<close> is called a second time.
\<close>

theorem second_create_counterexample:
  "creates 7
     (run [Resume 0 (Resolved []),
           InsertNotification (example_complaint 7 None),
           InsertNotification (example_complaint 7 None),
           Resume 1 (Resolved []), Resume 1 (Resolved ''0x1''), Resume 1 (Resolved ''0x2''),
           Resume 1 (Resolved []),
           Resume 2 (Resolved [])]
        (startServer [])) = 2"
  by (simp add: startServer_def select_tx_hash_null_def example_complaint_def
      mintComplaintToBlockchain_def truthy_def or_else_def js_or_def Let_def say_def
      setupRealtimeListener_def mint_finally_def update_tx_hash_def creates_def)

lemma two_inserts_first:
  "step (Resume 1 (Resolved [])) two_inserts =
     \<lparr>processingComplaints = {7}, processingStatusUpdates = {}, db = [], listening = True,
      tasks = [Finished, MintTask 7 AwaitLogComplaint, InsertHandler (example_complaint 7 None)],
      console = [ProcessingComplaint 7, CallingLogComplaint 7 ''Pune'' ''General''],
      calls = [LogComplaint 7 ''Pune'' ''General'']\<rparr>"
  by (simp add: two_inserts_def idle_def example_complaint_def mintComplaintToBlockchain_def
      truthy_def or_else_def js_or_def Let_def)

lemma two_inserts_second:
  "step (Resume 2 (Resolved []))
     \<lparr>processingComplaints = {7}, processingStatusUpdates = {}, db = [], listening = True,
      tasks = [Finished, MintTask 7 AwaitLogComplaint, InsertHandler (example_complaint 7 None)],
      console = [ProcessingComplaint 7, CallingLogComplaint 7 ''Pune'' ''General''],
      calls = [LogComplaint 7 ''Pune'' ''General'']\<rparr> =
     \<lparr>processingComplaints = {7}, processingStatusUpdates = {}, db = [], listening = True,
      tasks = [Finished, MintTask 7 AwaitLogComplaint, Finished],
      console = [ProcessingComplaint 7, CallingLogComplaint 7 ''Pune'' ''General'',
                 AlreadyBeingProcessed 7],
      calls = [LogComplaint 7 ''Pune'' ''General'']\<rparr>"
  by (simp add: example_complaint_def mintComplaintToBlockchain_def say_def)

lemma two_inserts_reached:
  "run [Resume 0 (Resolved []), InsertNotification (example_complaint 7 None),
        InsertNotification (example_complaint 7 None), Resume 1 (Resolved []),
        Resume 2 (Resolved [])] (startServer []) =
     \<lparr>processingComplaints = {7}, processingStatusUpdates = {}, db = [], listening = True,
      tasks = [Finished, MintTask 7 AwaitLogComplaint, Finished],
      console = [CheckingExisting, NoPending, SettingUpListener, NewComplaintDetected,
                 NewComplaintDetected, ProcessingComplaint 7,
                 CallingLogComplaint 7 ''Pune'' ''General'', AlreadyBeingProcessed 7],
      calls = [LogComplaint 7 ''Pune'' ''General'']\<rparr>"
  by (simp add: startServer_def select_tx_hash_null_def example_complaint_def
      mintComplaintToBlockchain_def truthy_def or_else_def js_or_def Let_def say_def
      setupRealtimeListener_def)

theorem one_create_while_in_flight_witness:
  "7 \<notin> processingComplaints two_inserts \<and>
   in_flight_throughout 7 [Resume 2 (Resolved [])] (step (Resume 1 (Resolved [])) two_inserts) \<and>
   creates 7 two_inserts = 0 \<and>
   creates 7 (run [Resume 2 (Resolved [])] (step (Resume 1 (Resolved [])) two_inserts)) = 1 \<and>
   mintComplaintToBlockchain (example_complaint 7 None)
     (step (Resume 1 (Resolved [])) two_inserts) =
     (None, say (AlreadyBeingProcessed 7) (step (Resume 1 (Resolved [])) two_inserts)) \<and>
   fst (mintComplaintToBlockchain (example_complaint 7 (Some ''0xabc'')) idle) = None \<and>
   (\<exists>i < 3. mint_key ([Finished, MintTask 7 AwaitLogComplaint, Finished] ! i) = Some 7)"
proof -
  let ?s1 = "step (Resume 1 (Resolved [])) two_inserts"
  let ?es = "[Resume 0 (Resolved []), InsertNotification (example_complaint 7 None),
        InsertNotification (example_complaint 7 None), Resume 1 (Resolved []),
        Resume 2 (Resolved [])]"
  have a: "7 \<notin> processingComplaints two_inserts"
    by (simp add: two_inserts_def idle_def)
  have b: "in_flight_throughout 7 [Resume 2 (Resolved [])] ?s1"
    unfolding in_flight_throughout.simps two_inserts_first two_inserts_second by simp
  have c: "creates 7 two_inserts = 0"
    by (simp add: creates_def two_inserts_def idle_def)
  have d: "complaint_id (example_complaint 7 None) = 7 \<and> 7 \<in> processingComplaints ?s1"
    unfolding two_inserts_first by (simp add: example_complaint_def)
  note inst = one_create_while_in_flight [OF a b, where es' = ?es and rows = "[]"]
  from inst c have "creates 7 (run [Resume 2 (Resolved [])] ?s1) = 1"
    by (simp del: step.simps run_Cons)
  moreover from inst d have "mintComplaintToBlockchain (example_complaint 7 None) ?s1 =
     (None, say (AlreadyBeingProcessed 7) ?s1)"
    by blast
  moreover have "truthy (tx_hash (example_complaint 7 (Some ''0xabc'')))"
    by (simp add: example_complaint_def truthy_def)
  with inst have "fst (mintComplaintToBlockchain (example_complaint 7 (Some ''0xabc'')) idle) = None"
    by blast
  moreover from inst have "held mint_key (tasks (run ?es (startServer [])))
      (processingComplaints (run ?es (startServer [])))"
    by blast
  then have "7 \<in> processingComplaints (run ?es (startServer [])) \<longleftrightarrow>
      (\<exists>i < length (tasks (run ?es (startServer []))).
         mint_key (tasks (run ?es (startServer [])) ! i) = Some 7)"
    unfolding held_def by blast
  then have "\<exists>i < 3. mint_key ([Finished, MintTask 7 AwaitLogComplaint, Finished] ! i) = Some 7"
    unfolding two_inserts_reached by (simp add: numeral_3_eq_3)
  ultimately show ?thesis using a b c by blast
qed

section \<open>Status updates with the same key collapse\<close>

lemma status_key_example:
  "status_key 7 1 = ''7:1''" "status_key 7 2 = ''7:2''" "status_key 7 (Suc 0) = ''7:1''"
  by (simp_all add: status_key_def number_to_string_def decimal.simps digit_char_def)

lemma step_status_in_flight:
  assumes "status_key k code \<in> processingStatusUpdates s"
  shows "status_updates k code (step e s) = status_updates k code s"
proof -
  have "effect s (step e s)" by (rule step_effect)
  then consider "quiet s (step e s)" | "starts_mint s (step e s)" | "starts_status s (step e s)"
    unfolding effect_def by blast
  then show ?thesis
  proof cases
    case 1
    then show ?thesis by (simp add: quiet_def status_updates_def)
  next
    case 2
    then show ?thesis by (auto simp: starts_mint_def status_updates_def)
  next
    case 3
    then obtain k' code' where "status_key k' code' \<notin> processingStatusUpdates s"
      and "calls (step e s) = calls s @ [UpdateComplaintStatus k' code']"
      unfolding starts_status_def by blast
    with assms show ?thesis by (auto simp: status_updates_def)
  qed
qed

lemma step_status_acquire:
  assumes "status_key k code \<notin> processingStatusUpdates s"
    and "status_key k code \<in> processingStatusUpdates (step e s)"
  shows "status_updates k code (step e s) = status_updates k code s + 1"
proof -
  have "effect s (step e s)" by (rule step_effect)
  then consider "quiet s (step e s)" | "starts_mint s (step e s)" | "starts_status s (step e s)"
    unfolding effect_def by blast
  then show ?thesis
  proof cases
    case 1
    with assms show ?thesis by (auto simp: quiet_def)
  next
    case 2
    with assms show ?thesis by (auto simp: starts_mint_def)
  next
    case 3
    then obtain k' code' where
      c: "calls (step e s) = calls s @ [UpdateComplaintStatus k' code']"
      and p: "processingStatusUpdates (step e s) =
              insert (status_key k' code') (processingStatusUpdates s)"
      unfolding starts_status_def by blast
    from assms p have "status_key k' code' = status_key k code" by auto
    then have "k' = k \<and> code' = code" by (simp add: status_key_inj)
    with c show ?thesis by (simp add: status_updates_def)
  qed
qed

lemma run_status_in_flight:
  "status_in_flight_throughout (status_key k code) es s \<Longrightarrow>
   status_updates k code (run es s) = status_updates k code s"
  by (induction es arbitrary: s) (simp_all add: step_status_in_flight)

text \<open>
  C7. The in-flight key of a status update stands for the pair of the id and the target
  code. Once a status update has passed the guard for a pair (the event \<open>e\<close> puts its key
  into \<^verbatim>\<open>processingStatusUpdates\<close>), then for as long as the key stays in the set exactly
  one \<^verbatim>\<open>updateComplaintStatus\<close> call has been made for that pair: a further notification
  for the same id that maps to the same code returns at the guard. A notification for
  the same id that maps to another code is admitted and makes its own call, unless its
  own key is in flight. And in every state the engine can reach, the keys in the set are
  exactly those of the status updates that have not returned, one update for each key.
\<close>

theorem status_key_collapse:
  "(status_key i a = status_key j b \<longleftrightarrow> i = j \<and> a = b) \<and>
   (status_key k code \<notin> processingStatusUpdates s \<and>
    status_in_flight_throughout (status_key k code) es (step e s) \<longrightarrow>
      status_updates k code (run es (step e s)) = status_updates k code s + 1) \<and>
   (complaint_id c = k \<and> mapStatusToEnum (status c) = code \<and>
    status_key k code \<in> processingStatusUpdates s' \<longrightarrow>
      updateComplaintStatusOnChain c s' = (None, say (StatusAlreadyInFlight k) s')) \<and>
   (complaint_id c = k \<and> mapStatusToEnum (status c) \<noteq> code \<and>
    status_key k code \<in> processingStatusUpdates s' \<and>
    status_key k (mapStatusToEnum (status c)) \<notin> processingStatusUpdates s' \<longrightarrow>
      fst (updateComplaintStatusOnChain c s') = Some AwaitUpdateStatus \<and>
      calls (snd (updateComplaintStatusOnChain c s')) =
        calls s' @ [UpdateComplaintStatus k (mapStatusToEnum (status c))]) \<and>
   held status_task_key (tasks (run es' (startServer rows)))
     (processingStatusUpdates (run es' (startServer rows)))"
proof (intro conjI impI)
  show "status_key i a = status_key j b \<longleftrightarrow> i = j \<and> a = b"
    by (rule status_key_inj)
next
  assume h: "status_key k code \<notin> processingStatusUpdates s \<and>
    status_in_flight_throughout (status_key k code) es (step e s)"
  then have "status_key k code \<in> processingStatusUpdates (step e s)"
    by (cases es) simp_all
  with h have "status_updates k code (step e s) = status_updates k code s + 1"
    by (simp add: step_status_acquire)
  with h show "status_updates k code (run es (step e s)) = status_updates k code s + 1"
    by (simp add: run_status_in_flight)
next
  assume "complaint_id c = k \<and> mapStatusToEnum (status c) = code \<and>
    status_key k code \<in> processingStatusUpdates s'"
  then show "updateComplaintStatusOnChain c s' = (None, say (StatusAlreadyInFlight k) s')"
    using status_busy [of c s'] by auto
next
  assume h: "complaint_id c = k \<and> mapStatusToEnum (status c) \<noteq> code \<and>
    status_key k code \<in> processingStatusUpdates s' \<and>
    status_key k (mapStatusToEnum (status c)) \<notin> processingStatusUpdates s'"
  then show "fst (updateComplaintStatusOnChain c s') = Some AwaitUpdateStatus"
    using status_submit [of c s'] by auto
next
  assume h: "complaint_id c = k \<and> mapStatusToEnum (status c) \<noteq> code \<and>
    status_key k code \<in> processingStatusUpdates s' \<and>
    status_key k (mapStatusToEnum (status c)) \<notin> processingStatusUpdates s'"
  then show "calls (snd (updateComplaintStatusOnChain c s')) =
        calls s' @ [UpdateComplaintStatus k (mapStatusToEnum (status c))]"
    using status_submit [of c s'] by auto
next
  show "held status_task_key (tasks (run es' (startServer rows)))
     (processingStatusUpdates (run es' (startServer rows)))"
    by (rule keys_held_by_one_call(2))
qed

lemma with_status_codes:
  "mapStatusToEnum (status (with_status ''resolved'')) = 1"
  "mapStatusToEnum (status (with_status ''verified'')) = 2"
  "complaint_id (with_status st) = 7"
  by (simp_all add: with_status_def example_complaint_def mapStatusToEnum_def toLowerCase_def
      lower_char_def or_else_def upper_letters_def lower_letters_def)

lemma update_first:
  "step (UpdateNotification None (with_status ''resolved'')) idle =
     \<lparr>processingComplaints = {}, processingStatusUpdates = {''7:1''}, db = [],
      listening = True, tasks = [Finished, StatusTask 7 ''7:1'' AwaitUpdateStatus],
      console = [StatusChanged 7, UpdatingStatus 7 1],
      calls = [UpdateComplaintStatus 7 1]\<rparr>"
proof -
  have "truthy (status (with_status ''resolved''))"
    "None \<noteq> status (with_status ''resolved'')"
    by (simp_all add: with_status_def truthy_def)
  then show ?thesis
    by (simp add: updateComplaintStatusOnChain_def with_status_codes status_key_example
        Let_def say_def idle_def)
qed

lemma update_second:
  "step (UpdateNotification (Some ''pending'') (with_status ''resolved''))
     \<lparr>processingComplaints = {}, processingStatusUpdates = {''7:1''}, db = [],
      listening = True, tasks = [Finished, StatusTask 7 ''7:1'' AwaitUpdateStatus],
      console = [StatusChanged 7, UpdatingStatus 7 1],
      calls = [UpdateComplaintStatus 7 1]\<rparr> =
     \<lparr>processingComplaints = {}, processingStatusUpdates = {''7:1''}, db = [],
      listening = True, tasks = [Finished, StatusTask 7 ''7:1'' AwaitUpdateStatus],
      console = [StatusChanged 7, UpdatingStatus 7 1, StatusChanged 7, StatusAlreadyInFlight 7],
      calls = [UpdateComplaintStatus 7 1]\<rparr>"
proof -
  have "truthy (status (with_status ''resolved''))"
    "Some ''pending'' \<noteq> status (with_status ''resolved'')"
    by (simp_all add: with_status_def truthy_def)
  then show ?thesis
    by (simp add: updateComplaintStatusOnChain_def with_status_codes status_key_example
        Let_def say_def)
qed

lemma update_reached:
  "run [Resume 0 (Resolved []), UpdateNotification None (with_status ''resolved'')]
     (startServer []) =
     \<lparr>processingComplaints = {}, processingStatusUpdates = {''7:1''}, db = [],
      listening = True, tasks = [Finished, StatusTask 7 ''7:1'' AwaitUpdateStatus],
      console = [CheckingExisting, NoPending, SettingUpListener, StatusChanged 7,
                 UpdatingStatus 7 1],
      calls = [UpdateComplaintStatus 7 1]\<rparr>"
proof -
  have "truthy (status (with_status ''resolved''))"
    "None \<noteq> status (with_status ''resolved'')"
    by (simp_all add: with_status_def truthy_def)
  then show ?thesis
    by (simp add: updateComplaintStatusOnChain_def with_status_codes status_key_example
        Let_def say_def startServer_def select_tx_hash_null_def setupRealtimeListener_def)
qed

theorem status_key_collapse_witness:
  "status_key 7 1 \<notin> processingStatusUpdates idle \<and>
   status_in_flight_throughout (status_key 7 1)
     [UpdateNotification (Some ''pending'') (with_status ''resolved'')]
     (step (UpdateNotification None (with_status ''resolved'')) idle) \<and>
   status_updates 7 1 idle = 0 \<and>
   status_updates 7 1
     (run [UpdateNotification (Some ''pending'') (with_status ''resolved'')]
        (step (UpdateNotification None (with_status ''resolved'')) idle)) = 1 \<and>
   updateComplaintStatusOnChain (with_status ''resolved'')
     (step (UpdateNotification None (with_status ''resolved'')) idle) =
     (None, say (StatusAlreadyInFlight 7)
        (step (UpdateNotification None (with_status ''resolved'')) idle)) \<and>
   calls (snd (updateComplaintStatusOnChain (with_status ''verified'')
     (step (UpdateNotification None (with_status ''resolved'')) idle))) =
     [UpdateComplaintStatus 7 1, UpdateComplaintStatus 7 2] \<and>
   (\<exists>i < 2. status_task_key ([Finished, StatusTask 7 ''7:1'' AwaitUpdateStatus] ! i)
      = Some ''7:1'')"
proof -
  let ?s1 = "step (UpdateNotification None (with_status ''resolved'')) idle"
  let ?es = "[UpdateNotification (Some ''pending'') (with_status ''resolved'')]"
  let ?reach = "[Resume 0 (Resolved []), UpdateNotification None (with_status ''resolved'')]"
  have a: "status_key 7 1 \<notin> processingStatusUpdates idle"
    by (simp add: idle_def)
  have b: "status_in_flight_throughout (status_key 7 1) ?es ?s1"
    unfolding status_in_flight_throughout.simps update_first update_second
    by (simp add: status_key_example)
  have c: "status_updates 7 1 idle = 0"
    by (simp add: status_updates_def idle_def)
  have d: "complaint_id (with_status ''verified'') = 7 \<and>
      mapStatusToEnum (status (with_status ''verified'')) \<noteq> 1 \<and>
      status_key 7 1 \<in> processingStatusUpdates ?s1 \<and>
      status_key 7 (mapStatusToEnum (status (with_status ''verified'')))
        \<notin> processingStatusUpdates ?s1"
    unfolding update_first by (simp add: with_status_codes status_key_example)
  have e: "calls ?s1 = [UpdateComplaintStatus 7 1]"
    unfolding update_first by simp
  have g: "complaint_id (with_status ''resolved'') = 7 \<and>
      mapStatusToEnum (status (with_status ''resolved'')) = 1 \<and>
      status_key 7 1 \<in> processingStatusUpdates ?s1"
    unfolding update_first by (simp add: with_status_codes status_key_example)
  note same = status_key_collapse
    [where k = 7 and code = 1 and c = "with_status ''resolved''" and s' = ?s1]
  from same g have h: "updateComplaintStatusOnChain (with_status ''resolved'') ?s1 =
     (None, say (StatusAlreadyInFlight 7) ?s1)"
    by blast
  note inst = status_key_collapse
    [where k = 7 and code = 1 and s = idle and es = ?es
       and e = "UpdateNotification None (with_status ''resolved'')"
       and c = "with_status ''verified''" and s' = ?s1 and es' = ?reach and rows = "[]"]
  from inst a b c have "status_updates 7 1 (run ?es ?s1) = 1"
    by (simp del: step.simps run_Cons)
  moreover from inst d e have "calls (snd (updateComplaintStatusOnChain (with_status ''verified'') ?s1)) =
     [UpdateComplaintStatus 7 1, UpdateComplaintStatus 7 2]"
    by (simp add: with_status_codes del: step.simps)
  moreover from inst have "held status_task_key (tasks (run ?reach (startServer [])))
      (processingStatusUpdates (run ?reach (startServer [])))"
    by blast
  then have "''7:1'' \<in> processingStatusUpdates (run ?reach (startServer [])) \<longleftrightarrow>
      (\<exists>i < length (tasks (run ?reach (startServer []))).
         status_task_key (tasks (run ?reach (startServer [])) ! i) = Some ''7:1'')"
    unfolding held_def by blast
  then have "\<exists>i < 2. status_task_key ([Finished, StatusTask 7 ''7:1'' AwaitUpdateStatus] ! i)
      = Some ''7:1''"
    unfolding update_reached by (simp add: numeral_2_eq_2)
  ultimately show ?thesis using a b c h by blast
qed

section \<open>The in-flight key is released when the call returns\<close>

lemma tasks_step_Resume:
  "tid < length (tasks s) \<Longrightarrow>
   tasks (step (Resume tid r) s) ! tid = fst (resume_task (tasks s ! tid) r s)"
  by (simp add: step_Resume del: step.simps)

text \<open>The responses on which a call returns, for each \<open>await\<close> it can stand at.\<close>

lemma mint_returns:
  "fst (mint_resume k (AwaitUpdateTxHash h) (Resolved x) s) = None"
  "fst (mint_resume k (AwaitUpdateTxHash h) ResolvedError s) = None"
  "fst (mint_resume k (AwaitStoreError t) r s) = None"
  by (cases r; simp)+

lemma status_returns:
  "fst (status_resume k key AwaitStatusWait (Resolved h) s) = None"
  "fst (status_resume k key spc (Rejected m) s) = None"
  by (cases spc; simp)+


lemma mint_resume_progress:
  "answers pc r \<Longrightarrow>
   fst (mint_resume k pc r s) = None \<or>
   (\<exists>pc'. fst (mint_resume k pc r s) = Some pc' \<and> awaits_left pc' < awaits_left pc)"
  by (cases pc; cases r) (simp_all add: mint_catch_eq)

lemma status_resume_progress:
  "r \<noteq> ResolvedError \<Longrightarrow>
   fst (status_resume k key spc r s) = None \<or>
   (\<exists>spc'. fst (status_resume k key spc r s) = Some spc' \<and>
      status_awaits_left spc' < status_awaits_left spc)"
  by (cases spc; cases r) simp_all

lemma mint_resume_released:
  "fst (mint_resume k pc r s) = None \<Longrightarrow> k \<notin> processingComplaints (snd (mint_resume k pc r s))"
  by (cases k pc r s rule: mint_resume_cases) simp_all

lemma status_resume_released:
  "fst (status_resume k key spc r s) = None \<Longrightarrow>
   key \<notin> processingStatusUpdates (snd (status_resume k key spc r s))"
  by (cases k key spc r s rule: status_resume_cases) simp_all

text \<open>A step of a call inside a mint is a step of the mint, and likewise for a status update.\<close>

lemma step_mint_call:
  assumes "tid < length (tasks s)" and "mint_call (tasks s ! tid) = Some (k, pc)"
  shows "mint_call (tasks (step (Resume tid r) s) ! tid) =
           map_option (Pair k) (fst (mint_resume k pc r s))"
    and "processingComplaints (step (Resume tid r) s) =
           processingComplaints (snd (mint_resume k pc r s))"
    and "length (tasks (step (Resume tid r) s)) = length (tasks s)"
proof -
  from assms(2) consider "tasks s ! tid = MintTask k pc"
    | rest where "tasks s ! tid = BacklogMint k pc rest"
    by (cases "tasks s ! tid") simp_all
  then have "mint_call (fst (resume_task (tasks s ! tid) r s)) =
           map_option (Pair k) (fst (mint_resume k pc r s)) \<and>
         snd (resume_task (tasks s ! tid) r s) = snd (mint_resume k pc r s)"
    by cases (simp_all split: prod.splits option.splits)
  then show "mint_call (tasks (step (Resume tid r) s) ! tid) =
           map_option (Pair k) (fst (mint_resume k pc r s))"
    and "processingComplaints (step (Resume tid r) s) =
           processingComplaints (snd (mint_resume k pc r s))"
    using assms(1) by (simp_all add: step_Resume del: step.simps)
  show "length (tasks (step (Resume tid r) s)) = length (tasks s)"
    using assms(1) by (simp add: step_Resume del: step.simps)
qed

lemma step_status_call:
  assumes "tid < length (tasks s)" and "status_call (tasks s ! tid) = Some (key, spc)"
  shows "\<exists>k. status_call (tasks (step (Resume tid r) s) ! tid) =
           map_option (Pair key) (fst (status_resume k key spc r s)) \<and>
         processingStatusUpdates (step (Resume tid r) s) =
           processingStatusUpdates (snd (status_resume k key spc r s))"
proof -
  from assms(2) obtain k where t: "tasks s ! tid = StatusTask k key spc"
    by (cases "tasks s ! tid") simp_all
  then have "status_call (fst (resume_task (tasks s ! tid) r s)) =
           map_option (Pair key) (fst (status_resume k key spc r s)) \<and>
         snd (resume_task (tasks s ! tid) r s) = snd (status_resume k key spc r s)"
    by (simp split: prod.splits option.splits)
  then show ?thesis
    using assms(1) by (auto simp: step_Resume simp del: step.simps)
qed

lemma mint_call_answered:
  assumes "tid < length (tasks s)" and "mint_call (tasks s ! tid) = Some (k, pc)"
    and "answers pc r"
  shows "(mint_call (tasks (step (Resume tid r) s) ! tid) = None \<and>
          k \<notin> processingComplaints (step (Resume tid r) s)) \<or>
         (\<exists>pc'. mint_call (tasks (step (Resume tid r) s) ! tid) = Some (k, pc') \<and>
                awaits_left pc' < awaits_left pc)"
  using mint_resume_progress [OF assms(3), of k s] mint_resume_released [of k pc r s]
  by (auto simp: step_mint_call [OF assms(1,2)] simp del: step.simps)

lemma mint_call_returns:
  assumes "tid < length (tasks s)" and "mint_call (tasks s ! tid) = Some (k, pc)"
    and "(\<exists>h. pc = AwaitUpdateTxHash h) \<and> (r = ResolvedError \<or> (\<exists>x. r = Resolved x)) \<or>
         (\<exists>t. pc = AwaitStoreError t)"
  shows "mint_call (tasks (step (Resume tid r) s) ! tid) = None \<and>
         k \<notin> processingComplaints (step (Resume tid r) s)"
proof -
  have "fst (mint_resume k pc r s) = None"
    using assms(3) mint_returns by auto
  then show ?thesis
    using mint_resume_released [of k pc r s]
    by (simp add: step_mint_call [OF assms(1,2)] del: step.simps)
qed

lemma mint_call_rejected:
  assumes "tid < length (tasks s)" and "mint_call (tasks s ! tid) = Some (k, pc)"
    and "\<forall>t. pc \<noteq> AwaitStoreError t"
  shows "mint_call (tasks (run [Resume tid (Rejected m), Resume tid r] s) ! tid) = None \<and>
         k \<notin> processingComplaints (run [Resume tid (Rejected m), Resume tid r] s)"
proof -
  let ?s1 = "step (Resume tid (Rejected m)) s"
  have "fst (mint_resume k pc (Rejected m) s) = Some (AwaitStoreError (''ERROR: '' @ take 200 m))"
    using assms(3) by (cases pc) (simp_all add: mint_catch_eq)
  then have "mint_call (tasks ?s1 ! tid) = Some (k, AwaitStoreError (''ERROR: '' @ take 200 m))"
    by (simp add: step_mint_call(1) [OF assms(1,2)] del: step.simps)
  moreover have "tid < length (tasks ?s1)"
    using assms(1) by (simp add: step_mint_call(3) [OF assms(1,2)] del: step.simps)
  ultimately have "mint_call (tasks (step (Resume tid r) ?s1) ! tid) = None \<and>
         k \<notin> processingComplaints (step (Resume tid r) ?s1)"
    by (intro mint_call_returns) auto
  then show ?thesis unfolding run_Cons run_Nil .
qed

lemma status_call_answered:
  assumes "tid < length (tasks s)" and "status_call (tasks s ! tid) = Some (key, spc)"
    and "r \<noteq> ResolvedError"
  shows "(status_call (tasks (step (Resume tid r) s) ! tid) = None \<and>
          key \<notin> processingStatusUpdates (step (Resume tid r) s)) \<or>
         (\<exists>spc'. status_call (tasks (step (Resume tid r) s) ! tid) = Some (key, spc') \<and>
                status_awaits_left spc' < status_awaits_left spc)"
proof -
  obtain k where st: "status_call (tasks (step (Resume tid r) s) ! tid) =
           map_option (Pair key) (fst (status_resume k key spc r s))"
         "processingStatusUpdates (step (Resume tid r) s) =
           processingStatusUpdates (snd (status_resume k key spc r s))"
    using step_status_call [OF assms(1,2)] by blast
  show ?thesis
    using status_resume_progress [OF assms(3), of k key spc s]
      status_resume_released [of k key spc r s]
    by (auto simp: st simp del: step.simps)
qed

lemma status_call_returns:
  assumes "tid < length (tasks s)" and "status_call (tasks s ! tid) = Some (key, spc)"
    and "(\<exists>m. r = Rejected m) \<or> (spc = AwaitStatusWait \<and> (\<exists>x. r = Resolved x))"
  shows "status_call (tasks (step (Resume tid r) s) ! tid) = None \<and>
         key \<notin> processingStatusUpdates (step (Resume tid r) s)"
proof -
  obtain k where st: "status_call (tasks (step (Resume tid r) s) ! tid) =
           map_option (Pair key) (fst (status_resume k key spc r s))"
         "processingStatusUpdates (step (Resume tid r) s) =
           processingStatusUpdates (snd (status_resume k key spc r s))"
    using step_status_call [OF assms(1,2)] by blast
  have "fst (status_resume k key spc r s) = None"
    using assms(3) status_returns by auto
  then show ?thesis
    using status_resume_released [of k key spc r s] by (simp add: st del: step.simps)
qed

text \<open>
  C9. Both coordinators release their in-flight key on every way out, and every way ends.
  A resumed mint (started by a notification or by the backlog loop) either stands at a
  later \<open>await\<close> or has returned, and when it has returned its id is no longer in
  \<^verbatim>\<open>processingComplaints\<close>; likewise a resumed status update and its key in
  \<^verbatim>\<open>processingStatusUpdates\<close>. Each answer of the awaited promise leaves the call fewer
  \<open>await\<close>s to go, so that it returns after at most four answers (two for a status
  update). The outcomes: on success and on a failed write-back the mint returns with its
  id released; after a rejection by the contract or a thrown error it returns with its id
  released as soon as the write of the \<^verbatim>\<open>catch\<close> block has settled, however it settles;
  a status update returns with its key released on confirmation and on every rejection.
\<close>

theorem in_flight_key_released:
  assumes "tid < length (tasks s)"
    and "s1 = step (Resume tid r) s"
    and "s2 = run [Resume tid (Rejected m), Resume tid r'] s"
  shows
    "(tasks s ! tid = MintTask k pc \<longrightarrow>
        (\<exists>pc'. tasks s1 ! tid = MintTask k pc') \<or>
        (tasks s1 ! tid = Finished \<and> k \<notin> processingComplaints s1)) \<and>
     (tasks s ! tid = BacklogMint k pc rest \<longrightarrow>
        (\<exists>pc'. tasks s1 ! tid = BacklogMint k pc' rest) \<or>
        (tasks s1 ! tid = BacklogDelay rest \<and> k \<notin> processingComplaints s1)) \<and>
     (tasks s ! tid = StatusTask k' key spc \<longrightarrow>
        (\<exists>pc'. tasks s1 ! tid = StatusTask k' key pc') \<or>
        (tasks s1 ! tid = Finished \<and> key \<notin> processingStatusUpdates s1)) \<and>
     (mint_call (tasks s ! tid) = Some (k, pc) \<longrightarrow>
        (answers pc r \<longrightarrow>
           (mint_call (tasks s1 ! tid) = None \<and> k \<notin> processingComplaints s1) \<or>
           (\<exists>pc'. mint_call (tasks s1 ! tid) = Some (k, pc') \<and>
                  awaits_left pc' < awaits_left pc)) \<and>
        ((\<exists>h. pc = AwaitUpdateTxHash h) \<and> (r = ResolvedError \<or> (\<exists>x. r = Resolved x)) \<longrightarrow>
           mint_call (tasks s1 ! tid) = None \<and> k \<notin> processingComplaints s1) \<and>
        ((\<exists>t. pc = AwaitStoreError t) \<longrightarrow>
           mint_call (tasks s1 ! tid) = None \<and> k \<notin> processingComplaints s1) \<and>
        ((\<forall>t. pc \<noteq> AwaitStoreError t) \<longrightarrow>
           mint_call (tasks s2 ! tid) = None \<and> k \<notin> processingComplaints s2)) \<and>
     (status_call (tasks s ! tid) = Some (key, spc) \<longrightarrow>
        (r \<noteq> ResolvedError \<longrightarrow>
           (status_call (tasks s1 ! tid) = None \<and> key \<notin> processingStatusUpdates s1) \<or>
           (\<exists>spc'. status_call (tasks s1 ! tid) = Some (key, spc') \<and>
                   status_awaits_left spc' < status_awaits_left spc)) \<and>
        ((\<exists>m. r = Rejected m) \<or> (spc = AwaitStatusWait \<and> (\<exists>x. r = Resolved x)) \<longrightarrow>
           status_call (tasks s1 ! tid) = None \<and> key \<notin> processingStatusUpdates s1))"
proof -
  have a: "tasks s ! tid = MintTask k pc \<longrightarrow>
        (\<exists>pc'. tasks s1 ! tid = MintTask k pc') \<or>
        (tasks s1 ! tid = Finished \<and> k \<notin> processingComplaints s1)"
    unfolding assms(2) using assms(1)
    by (cases k pc r s rule: mint_resume_cases)
      (simp_all add: step_Resume del: step.simps)
  have b: "tasks s ! tid = BacklogMint k pc rest \<longrightarrow>
        (\<exists>pc'. tasks s1 ! tid = BacklogMint k pc' rest) \<or>
        (tasks s1 ! tid = BacklogDelay rest \<and> k \<notin> processingComplaints s1)"
    unfolding assms(2) using assms(1)
    by (cases k pc r s rule: mint_resume_cases)
      (simp_all add: step_Resume del: step.simps)
  have c: "tasks s ! tid = StatusTask k' key spc \<longrightarrow>
        (\<exists>pc'. tasks s1 ! tid = StatusTask k' key pc') \<or>
        (tasks s1 ! tid = Finished \<and> key \<notin> processingStatusUpdates s1)"
    unfolding assms(2) using assms(1)
    by (cases k' key spc r s rule: status_resume_cases)
      (simp_all add: step_Resume del: step.simps)
  have d: "mint_call (tasks s ! tid) = Some (k, pc) \<longrightarrow>
        (answers pc r \<longrightarrow>
           (mint_call (tasks s1 ! tid) = None \<and> k \<notin> processingComplaints s1) \<or>
           (\<exists>pc'. mint_call (tasks s1 ! tid) = Some (k, pc') \<and>
                  awaits_left pc' < awaits_left pc)) \<and>
        ((\<exists>h. pc = AwaitUpdateTxHash h) \<and> (r = ResolvedError \<or> (\<exists>x. r = Resolved x)) \<longrightarrow>
           mint_call (tasks s1 ! tid) = None \<and> k \<notin> processingComplaints s1) \<and>
        ((\<exists>t. pc = AwaitStoreError t) \<longrightarrow>
           mint_call (tasks s1 ! tid) = None \<and> k \<notin> processingComplaints s1) \<and>
        ((\<forall>t. pc \<noteq> AwaitStoreError t) \<longrightarrow>
           mint_call (tasks s2 ! tid) = None \<and> k \<notin> processingComplaints s2)"
    unfolding assms(2,3)
  proof (intro impI conjI)
    assume call: "mint_call (tasks s ! tid) = Some (k, pc)"
    {
      assume "answers pc r"
      then show "(mint_call (tasks (step (Resume tid r) s) ! tid) = None \<and>
            k \<notin> processingComplaints (step (Resume tid r) s)) \<or>
           (\<exists>pc'. mint_call (tasks (step (Resume tid r) s) ! tid) = Some (k, pc') \<and>
                  awaits_left pc' < awaits_left pc)"
        by (rule mint_call_answered [OF assms(1) call])
    }
    {
      assume h: "(\<exists>h. pc = AwaitUpdateTxHash h) \<and> (r = ResolvedError \<or> (\<exists>x. r = Resolved x))"
      then have "(\<exists>h. pc = AwaitUpdateTxHash h) \<and> (r = ResolvedError \<or> (\<exists>x. r = Resolved x)) \<or>
         (\<exists>t. pc = AwaitStoreError t)"
        by (rule disjI1)
      from mint_call_returns [OF assms(1) call this]
      show "mint_call (tasks (step (Resume tid r) s) ! tid) = None"
        and "k \<notin> processingComplaints (step (Resume tid r) s)"
        by simp_all
    }
    {
      assume h: "\<exists>t. pc = AwaitStoreError t"
      then have "(\<exists>h. pc = AwaitUpdateTxHash h) \<and> (r = ResolvedError \<or> (\<exists>x. r = Resolved x)) \<or>
         (\<exists>t. pc = AwaitStoreError t)"
        by (rule disjI2)
      from mint_call_returns [OF assms(1) call this]
      show "mint_call (tasks (step (Resume tid r) s) ! tid) = None"
        and "k \<notin> processingComplaints (step (Resume tid r) s)"
        by simp_all
    }
    {
      assume h: "\<forall>t. pc \<noteq> AwaitStoreError t"
      from mint_call_rejected [OF assms(1) call h, of m r']
      show "mint_call (tasks (run [Resume tid (Rejected m), Resume tid r'] s) ! tid) = None"
        and "k \<notin> processingComplaints (run [Resume tid (Rejected m), Resume tid r'] s)"
        by simp_all
    }
  qed
  have e: "status_call (tasks s ! tid) = Some (key, spc) \<longrightarrow>
        (r \<noteq> ResolvedError \<longrightarrow>
           (status_call (tasks s1 ! tid) = None \<and> key \<notin> processingStatusUpdates s1) \<or>
           (\<exists>spc'. status_call (tasks s1 ! tid) = Some (key, spc') \<and>
                   status_awaits_left spc' < status_awaits_left spc)) \<and>
        ((\<exists>m. r = Rejected m) \<or> (spc = AwaitStatusWait \<and> (\<exists>x. r = Resolved x)) \<longrightarrow>
           status_call (tasks s1 ! tid) = None \<and> key \<notin> processingStatusUpdates s1)"
    unfolding assms(2)
  proof (intro impI conjI)
    assume call: "status_call (tasks s ! tid) = Some (key, spc)"
    {
      assume "r \<noteq> ResolvedError"
      then show "(status_call (tasks (step (Resume tid r) s) ! tid) = None \<and>
            key \<notin> processingStatusUpdates (step (Resume tid r) s)) \<or>
           (\<exists>spc'. status_call (tasks (step (Resume tid r) s) ! tid) = Some (key, spc') \<and>
                   status_awaits_left spc' < status_awaits_left spc)"
        by (rule status_call_answered [OF assms(1) call])
    }
    {
      assume h: "(\<exists>m. r = Rejected m) \<or> (spc = AwaitStatusWait \<and> (\<exists>x. r = Resolved x))"
      from status_call_returns [OF assms(1) call h]
      show "status_call (tasks (step (Resume tid r) s) ! tid) = None"
        and "key \<notin> processingStatusUpdates (step (Resume tid r) s)"
        by simp_all
    }
  qed
  from a b c d e show ?thesis by (intro conjI)
qed

theorem in_flight_key_released_witness:
  "1 < length (tasks (minting AwaitLogComplaint)) \<and>
   mint_call (tasks (minting AwaitLogComplaint) ! 1) = Some (7, AwaitLogComplaint) \<and>
   mint_call (tasks (run [Resume 1 (Rejected ''nonce too low''), Resume 1 (Resolved [])]
     (minting AwaitLogComplaint)) ! 1) = None \<and>
   7 \<notin> processingComplaints (run [Resume 1 (Rejected ''nonce too low''), Resume 1 (Resolved [])]
     (minting AwaitLogComplaint)) \<and>
   tasks (minting (AwaitUpdateTxHash ''0x2'')) ! 1 = MintTask 7 (AwaitUpdateTxHash ''0x2'') \<and>
   tasks (step (Resume 1 ResolvedError) (minting (AwaitUpdateTxHash ''0x2''))) ! 1 = Finished \<and>
   7 \<notin> processingComplaints (step (Resume 1 ResolvedError) (minting (AwaitUpdateTxHash ''0x2''))) \<and>
   0 < length (tasks (reconciling (AwaitStoreError ''ERROR: x''))) \<and>
   tasks (reconciling (AwaitStoreError ''ERROR: x'')) ! 0
     = BacklogMint 7 (AwaitStoreError ''ERROR: x'') [] \<and>
   tasks (step (Resume 0 (Rejected ''down'')) (reconciling (AwaitStoreError ''ERROR: x''))) ! 0
     = BacklogDelay [] \<and>
   7 \<notin> processingComplaints
     (step (Resume 0 (Rejected ''down'')) (reconciling (AwaitStoreError ''ERROR: x''))) \<and>
   1 < length (tasks updating) \<and>
   status_call (tasks updating ! 1) = Some (''7:1'', AwaitStatusWait) \<and>
   status_call (tasks (step (Resume 1 (Rejected ''reverted'')) updating) ! 1) = None \<and>
   ''7:1'' \<notin> processingStatusUpdates (step (Resume 1 (Rejected ''reverted'')) updating) \<and>
   tasks (step (Resume 1 (Resolved ''0x3'')) updating) ! 1 = Finished \<and>
   ''7:1'' \<notin> processingStatusUpdates (step (Resume 1 (Resolved ''0x3'')) updating)"
proof -
  have a: "1 < length (tasks (minting pc))" for pc
    by (simp add: minting_def idle_def)
  have b: "1 < length (tasks updating)"
    by (simp add: updating_def idle_def)
  have g: "0 < length (tasks (reconciling (AwaitStoreError ''ERROR: x'')))"
    by (simp add: reconciling_def idle_def)
  \<comment> \<open>a mint rejected by the contract\<close>
  have c1: "mint_call (tasks (minting AwaitLogComplaint) ! 1) = Some (7, AwaitLogComplaint)"
    by (simp add: minting_def idle_def)
  have n1: "\<forall>t. AwaitLogComplaint \<noteq> AwaitStoreError t"
    by simp
  from in_flight_key_released [OF a refl refl, where k = 7 and pc = AwaitLogComplaint
      and m = "''nonce too low''" and r' = "Resolved []"] c1 n1
  have w1: "mint_call (tasks (run [Resume 1 (Rejected ''nonce too low''), Resume 1 (Resolved [])]
       (minting AwaitLogComplaint)) ! 1) = None \<and>
     7 \<notin> processingComplaints (run [Resume 1 (Rejected ''nonce too low''), Resume 1 (Resolved [])]
       (minting AwaitLogComplaint))"
    by blast
  \<comment> \<open>a mint whose write-back fails\<close>
  have c2: "tasks (minting (AwaitUpdateTxHash ''0x2'')) ! 1 = MintTask 7 (AwaitUpdateTxHash ''0x2'')"
    by (simp add: minting_def idle_def)
  have e2: "tasks (step (Resume 1 ResolvedError) (minting (AwaitUpdateTxHash ''0x2''))) ! 1 = Finished"
    by (simp add: minting_def idle_def)
  from in_flight_key_released [OF a refl refl, where k = 7 and pc = "AwaitUpdateTxHash ''0x2''"
      and r = ResolvedError] c2 e2
  have w2: "7 \<notin> processingComplaints
      (step (Resume 1 ResolvedError) (minting (AwaitUpdateTxHash ''0x2'')))"
    by (simp del: step.simps)
  \<comment> \<open>a mint of the backlog loop whose error write throws\<close>
  have c3: "tasks (reconciling (AwaitStoreError ''ERROR: x'')) ! 0
     = BacklogMint 7 (AwaitStoreError ''ERROR: x'') []"
    by (simp add: reconciling_def idle_def)
  have e3: "tasks (step (Resume 0 (Rejected ''down'')) (reconciling (AwaitStoreError ''ERROR: x''))) ! 0
     = BacklogDelay []"
    by (simp add: reconciling_def idle_def)
  from in_flight_key_released [OF g refl refl, where k = 7 and pc = "AwaitStoreError ''ERROR: x''"
      and rest = "[]" and r = "Rejected ''down''"] c3 e3
  have w3: "7 \<notin> processingComplaints
      (step (Resume 0 (Rejected ''down'')) (reconciling (AwaitStoreError ''ERROR: x'')))"
    by (simp del: step.simps)
  \<comment> \<open>a status update rejected by the contract, and one confirmed\<close>
  have c4: "status_call (tasks updating ! 1) = Some (''7:1'', AwaitStatusWait)"
    by (simp add: updating_def idle_def)
  from in_flight_key_released [OF b refl refl, where key = "''7:1''" and spc = AwaitStatusWait
      and r = "Rejected ''reverted''"] c4
  have w4: "status_call (tasks (step (Resume 1 (Rejected ''reverted'')) updating) ! 1) = None \<and>
     ''7:1'' \<notin> processingStatusUpdates (step (Resume 1 (Rejected ''reverted'')) updating)"
    by blast
  from in_flight_key_released [OF b refl refl, where key = "''7:1''" and spc = AwaitStatusWait
      and r = "Resolved ''0x3''"] c4
  have w5: "status_call (tasks (step (Resume 1 (Resolved ''0x3'')) updating) ! 1) = None \<and>
     ''7:1'' \<notin> processingStatusUpdates (step (Resume 1 (Resolved ''0x3'')) updating)"
    by blast
  have e5: "tasks (step (Resume 1 (Resolved ''0x3'')) updating) ! 1 = Finished"
    by (simp add: updating_def idle_def)
  from a [of AwaitLogComplaint] b g c1 w1 c2 e2 w2 c3 e3 w3 c4 w4 w5 e5
  show ?thesis by blast
qed

section \<open>A failed mint\<close>

lemma mint_resume_Rejected:
  "pc = AwaitLogComplaint \<or> pc = AwaitTxWait \<or> pc = AwaitUpdateTxHash h \<Longrightarrow>
   mint_resume k pc (Rejected m) s =
     (Some (AwaitStoreError (''ERROR: '' @ take 200 m)), say (ErrorMinting k m) s)"
  by (auto simp: mint_catch_eq)

lemma failed_then_stored:
  assumes "tid < length (tasks s)"
    and "tasks s ! tid = MintTask k pc \<or> tasks s ! tid = BacklogMint k pc rest"
    and "pc = AwaitLogComplaint \<or> pc = AwaitTxWait \<or> pc = AwaitUpdateTxHash h"
  shows "db (run [Resume tid (Rejected m), Resume tid (Resolved x)] s) =
         update_tx_hash k (''ERROR: '' @ take 200 m) (db s)"
proof -
  let ?s1 = "step (Resume tid (Rejected m)) s"
  have len: "tid < length (tasks ?s1)"
    using assms(1) by (simp add: step_Resume del: step.simps)
  have db1: "db ?s1 = db s"
    using assms by (auto simp: step_Resume mint_catch_eq simp del: step.simps)
  have t1: "tasks ?s1 ! tid = MintTask k (AwaitStoreError (''ERROR: '' @ take 200 m)) \<or>
        tasks ?s1 ! tid = BacklogMint k (AwaitStoreError (''ERROR: '' @ take 200 m)) rest"
    using assms by (auto simp: step_Resume mint_catch_eq simp del: step.simps)
  then have "db (step (Resume tid (Resolved x)) ?s1) =
        update_tx_hash k (''ERROR: '' @ take 200 m) (db ?s1)"
  proof
    assume "tasks ?s1 ! tid = MintTask k (AwaitStoreError (''ERROR: '' @ take 200 m))"
    then show ?thesis
      by (simp add: step_Resume [OF len] del: step.simps)
  next
    assume "tasks ?s1 ! tid = BacklogMint k (AwaitStoreError (''ERROR: '' @ take 200 m)) rest"
    then show ?thesis
      by (simp add: step_Resume [OF len] del: step.simps)
  qed
  with db1 show ?thesis by (simp only: run_Cons run_Nil)
qed

lemma update_tx_hash_sets:
  "r \<in> set (update_tx_hash k v rows) \<Longrightarrow> complaint_id r = k \<Longrightarrow> tx_hash r = Some v"
proof -
  assume "r \<in> set (update_tx_hash k v rows)" and k: "complaint_id r = k"
  then have "r \<in> (\<lambda>r. if complaint_id r = k then r\<lparr>tx_hash := Some v\<rparr> else r) ` set rows"
    by (simp only: update_tx_hash_def set_map)
  then obtain r0 where r: "r = (if complaint_id r0 = k then r0\<lparr>tx_hash := Some v\<rparr> else r0)"
    by (rule imageE)
  show ?thesis
  proof (cases "complaint_id r0 = k")
    case True
    with r show ?thesis by simp
  next
    case False
    with r k show ?thesis by simp
  qed
qed

text \<open>
  C3 (as amended). When a mint fails (the call of the contract or the wait for its
  receipt is rejected, or the write-back throws) and the write of the \<^verbatim>\<open>catch\<close> block
  goes through, the \<^verbatim>\<open>tx_hash\<close> of every row with that id is the text \<open>ERROR: \<close>
  followed by the first 200 characters of the error message.
\<close>

theorem failed_mint_writes_error_text:
  assumes "tid < length (tasks s)"
    and "tasks s ! tid = MintTask k pc \<or> tasks s ! tid = BacklogMint k pc rest"
    and "pc = AwaitLogComplaint \<or> pc = AwaitTxWait \<or> pc = AwaitUpdateTxHash h"
  shows "db (run [Resume tid (Rejected m), Resume tid (Resolved x)] s) =
           update_tx_hash k (''ERROR: '' @ take 200 m) (db s) \<and>
         (\<forall>r \<in> set (db (run [Resume tid (Rejected m), Resume tid (Resolved x)] s)).
            complaint_id r = k \<longrightarrow> tx_hash r = Some (''ERROR: '' @ take 200 m))"
proof -
  note eq = failed_then_stored [OF assms, of m x]
  show ?thesis
    unfolding eq by (simp add: update_tx_hash_sets)
qed

lemma backlog_of_one:
  "step (Resume 0 (Resolved [])) (startServer [example_complaint 7 None]) =
     \<lparr>processingComplaints = {7}, processingStatusUpdates = {},
      db = [example_complaint 7 None], listening = False,
      tasks = [BacklogMint 7 AwaitLogComplaint []],
      console = [CheckingExisting, Found 1, ProcessingComplaint 7,
                 CallingLogComplaint 7 ''Pune'' ''General''],
      calls = [LogComplaint 7 ''Pune'' ''General'']\<rparr>"
  by (simp add: startServer_def select_tx_hash_null_def example_complaint_def backlog_next_def
      mintComplaintToBlockchain_def truthy_def or_else_def js_or_def Let_def say_def)

lemma backlog_of_one_failed:
  "run [Resume 0 (Rejected ''nonce too low''), Resume 0 (Resolved [])]
     \<lparr>processingComplaints = {7}, processingStatusUpdates = {},
      db = [example_complaint 7 None], listening = False,
      tasks = [BacklogMint 7 AwaitLogComplaint []],
      console = [CheckingExisting, Found 1, ProcessingComplaint 7,
                 CallingLogComplaint 7 ''Pune'' ''General''],
      calls = [LogComplaint 7 ''Pune'' ''General'']\<rparr> =
     \<lparr>processingComplaints = {}, processingStatusUpdates = {},
      db = [example_complaint 7 (Some ''ERROR: nonce too low'')], listening = False,
      tasks = [BacklogDelay []],
      console = [CheckingExisting, Found 1, ProcessingComplaint 7,
                 CallingLogComplaint 7 ''Pune'' ''General'', ErrorMinting 7 ''nonce too low''],
      calls = [LogComplaint 7 ''Pune'' ''General'']\<rparr>"
  by (simp add: mint_catch_eq say_def mint_finally_def update_tx_hash_def example_complaint_def)

text \<open>
  C3 as stated fails: the only row is minted by the backlog loop, the contract rejects
  the call, and the row's \<^verbatim>\<open>tx_hash\<close> then holds the error text.
\<close>

theorem failed_mint_counterexample:
  "map tx_hash
     (db (run [Resume 0 (Resolved []), Resume 0 (Rejected ''nonce too low''),
               Resume 0 (Resolved [])]
            (startServer [example_complaint 7 None])))
   = [Some ''ERROR: nonce too low'']"
  unfolding run_Cons [of "Resume 0 (Resolved [])"] backlog_of_one backlog_of_one_failed
  by (simp add: example_complaint_def)

theorem failed_mint_writes_error_text_witness:
  "0 < length (tasks (step (Resume 0 (Resolved [])) (startServer [example_complaint 7 None]))) \<and>
   tasks (step (Resume 0 (Resolved [])) (startServer [example_complaint 7 None])) ! 0
     = BacklogMint 7 AwaitLogComplaint [] \<and>
   db (run [Resume 0 (Rejected ''nonce too low''), Resume 0 (Resolved [])]
        (step (Resume 0 (Resolved [])) (startServer [example_complaint 7 None])))
     = [example_complaint 7 (Some ''ERROR: nonce too low'')]"
proof -
  let ?s = "step (Resume 0 (Resolved [])) (startServer [example_complaint 7 None])"
  have a: "0 < length (tasks ?s)"
    unfolding backlog_of_one by simp
  have b: "tasks ?s ! 0 = MintTask 7 AwaitLogComplaint \<or>
           tasks ?s ! 0 = BacklogMint 7 AwaitLogComplaint []"
    unfolding backlog_of_one by simp
  have c: "AwaitLogComplaint = AwaitLogComplaint \<or> AwaitLogComplaint = AwaitTxWait \<or>
           AwaitLogComplaint = AwaitUpdateTxHash []"
    by simp
  have d: "db ?s = [example_complaint 7 None]"
    unfolding backlog_of_one by simp
  have e: "update_tx_hash 7 ''ERROR: nonce too low'' [example_complaint 7 None] =
           [example_complaint 7 (Some ''ERROR: nonce too low'')]"
    by (simp add: update_tx_hash_def example_complaint_def)
  from failed_mint_writes_error_text [OF a b c, of "''nonce too low''" "[]"]
  have "db (run [Resume 0 (Rejected ''nonce too low''), Resume 0 (Resolved [])] ?s) =
        update_tx_hash 7 (''ERROR: '' @ take 200 ''nonce too low'') (db ?s)"
    by (rule conjunct1)
  then have "db (run [Resume 0 (Rejected ''nonce too low''), Resume 0 (Resolved [])] ?s) =
        [example_complaint 7 (Some ''ERROR: nonce too low'')]"
    unfolding d using e by simp
  moreover have "tasks ?s ! 0 = BacklogMint 7 AwaitLogComplaint []"
    unfolding backlog_of_one by simp
  ultimately show ?thesis using a by blast
qed

section \<open>A failed mint is not retried\<close>

lemma update_tx_hash_keeps:
  assumes "\<forall>r \<in> set rows. complaint_id r = k \<longrightarrow> tx_hash r \<noteq> None"
  shows "\<forall>r \<in> set (update_tx_hash k' v rows). complaint_id r = k \<longrightarrow> tx_hash r \<noteq> None"
proof (intro ballI impI)
  fix r
  assume "r \<in> set (update_tx_hash k' v rows)" and k: "complaint_id r = k"
  then have "r \<in> (\<lambda>r. if complaint_id r = k' then r\<lparr>tx_hash := Some v\<rparr> else r) ` set rows"
    by (simp only: update_tx_hash_def set_map)
  then obtain r0 where r0: "r0 \<in> set rows"
    and r: "r = (if complaint_id r0 = k' then r0\<lparr>tx_hash := Some v\<rparr> else r0)"
    by (rule imageE)
  show "tx_hash r \<noteq> None"
  proof (cases "complaint_id r0 = k'")
    case True
    with r show ?thesis by simp
  next
    case False
    with r k r0 assms show ?thesis by simp
  qed
qed

lemma step_keeps_receipts:
  assumes "\<forall>r \<in> set (db s). complaint_id r = k \<longrightarrow> tx_hash r \<noteq> None"
  shows "\<forall>r \<in> set (db (step e s)). complaint_id r = k \<longrightarrow> tx_hash r \<noteq> None"
  using step_db [of e s] update_tx_hash_keeps [OF assms] assms by metis

lemma run_keeps_receipts:
  "\<forall>r \<in> set (db s). complaint_id r = k \<longrightarrow> tx_hash r \<noteq> None \<Longrightarrow>
   \<forall>r \<in> set (db (run es s)). complaint_id r = k \<longrightarrow> tx_hash r \<noteq> None"
proof (induction es arbitrary: s)
  case Nil
  then show ?case by simp
next
  case (Cons e es)
  from Cons.IH [OF step_keeps_receipts [OF Cons.prems]] show ?case
    by (simp only: run_Cons)
qed

lemma select_tx_hash_null_ids:
  assumes "k \<in> complaint_id ` set (select_tx_hash_null rows)"
  shows "\<exists>r \<in> set rows. complaint_id r = k \<and> tx_hash r = None"
proof -
  from assms obtain r where "r \<in> set rows" "tx_hash r = None"
    "k = complaint_id (r\<lparr>status := None\<rparr>)"
    unfolding select_tx_hash_null_def by auto
  then show ?thesis by auto
qed

text \<open>
  C10 (as amended). After a failed mint submission (the call of the contract or the wait
  for its receipt was rejected) whose error text was written, every row with that id
  holds the error text in \<^verbatim>\<open>tx_hash\<close>: the text is not empty, so a mint called with
  such a row makes no call of the contract and, when the id is not in flight, returns as
  for a minted row. Whatever the engine does afterwards, the \<^verbatim>\<open>tx_hash\<close> of these rows
  is never null again, so the query of the backlog never returns the id. (A mint called
  with a row as it was before the failure is not covered: the counterexample below.)
\<close>

theorem failed_mint_not_retried:
  assumes "tid < length (tasks s)"
    and "tasks s ! tid = MintTask k pc \<or> tasks s ! tid = BacklogMint k pc rest"
    and "pc = AwaitLogComplaint \<or> pc = AwaitTxWait"
  shows
    "(\<forall>r \<in> set (db (run [Resume tid (Rejected m), Resume tid (Resolved x)] s)).
        complaint_id r = k \<longrightarrow>
          tx_hash r = Some (''ERROR: '' @ take 200 m) \<and>
          fst (mintComplaintToBlockchain r s') = None \<and>
          calls (snd (mintComplaintToBlockchain r s')) = calls s' \<and>
          (k \<notin> processingComplaints s' \<longrightarrow>
             mintComplaintToBlockchain r s' = (None, say (AlreadyHasTxHash k) s'))) \<and>
     (\<forall>r \<in> set (db (run es (run [Resume tid (Rejected m), Resume tid (Resolved x)] s))).
        complaint_id r = k \<longrightarrow> tx_hash r \<noteq> None) \<and>
     k \<notin> complaint_id `
       set (select_tx_hash_null
         (db (run es (run [Resume tid (Rejected m), Resume tid (Resolved x)] s))))"
proof -
  let ?s1 = "run [Resume tid (Rejected m), Resume tid (Resolved x)] s"
  let ?E = "''ERROR: '' @ take 200 m"
  have pc: "pc = AwaitLogComplaint \<or> pc = AwaitTxWait \<or> pc = AwaitUpdateTxHash []"
    using assms(3) by blast
  have db1: "db ?s1 = update_tx_hash k ?E (db s)"
    by (rule failed_then_stored [OF assms(1,2) pc])
  have rows: "\<forall>r \<in> set (db ?s1). complaint_id r = k \<longrightarrow> tx_hash r = Some ?E"
    unfolding db1 using update_tx_hash_sets by blast
  have first: "\<forall>r \<in> set (db ?s1). complaint_id r = k \<longrightarrow>
          tx_hash r = Some ?E \<and>
          fst (mintComplaintToBlockchain r s') = None \<and>
          calls (snd (mintComplaintToBlockchain r s')) = calls s' \<and>
          (k \<notin> processingComplaints s' \<longrightarrow>
             mintComplaintToBlockchain r s' = (None, say (AlreadyHasTxHash k) s'))"
  proof (intro ballI impI)
    fix r
    assume r: "r \<in> set (db ?s1)" and k: "complaint_id r = k"
    with rows have tx: "tx_hash r = Some ?E" by blast
    then have "truthy (tx_hash r)" by (simp add: truthy_def)
    from mint_skips_truthy [OF this, of s'] tx k
    show "tx_hash r = Some ?E \<and>
          fst (mintComplaintToBlockchain r s') = None \<and>
          calls (snd (mintComplaintToBlockchain r s')) = calls s' \<and>
          (k \<notin> processingComplaints s' \<longrightarrow>
             mintComplaintToBlockchain r s' = (None, say (AlreadyHasTxHash k) s'))"
      by blast
  qed
  have "\<forall>r \<in> set (db ?s1). complaint_id r = k \<longrightarrow> tx_hash r \<noteq> None"
    using rows by simp
  then have later: "\<forall>r \<in> set (db (run es ?s1)). complaint_id r = k \<longrightarrow> tx_hash r \<noteq> None"
    by (rule run_keeps_receipts)
  then have "k \<notin> complaint_id ` set (select_tx_hash_null (db (run es ?s1)))"
    using select_tx_hash_null_ids by blast
  with first later show ?thesis by blast
qed

text \<open>
  C10 as stated fails: the row is minted by the backlog loop, the contract rejects the
  call and the error text is stored. A notification that carries the row as it was before
  the failure then reaches the INSERT handler, which mints the row of the notification:
  \<^verbatim>\<open>logComplaint\<close> is called a second time for the row whose \<^verbatim>\<open>tx_hash\<close> holds the error
  text.
\<close>

theorem failed_mint_retried_counterexample:
  "map tx_hash
     (db (run [Resume 0 (Resolved []), Resume 0 (Rejected ''nonce too low''),
               Resume 0 (Resolved []), Resume 0 (Resolved []),
               InsertNotification (example_complaint 7 None), Resume 1 (Resolved [])]
            (startServer [example_complaint 7 None])))
     = [Some ''ERROR: nonce too low''] \<and>
   creates 7
     (run [Resume 0 (Resolved []), Resume 0 (Rejected ''nonce too low''),
           Resume 0 (Resolved []), Resume 0 (Resolved []),
           InsertNotification (example_complaint 7 None), Resume 1 (Resolved [])]
        (startServer [example_complaint 7 None])) = 2"
  by (simp add: startServer_def select_tx_hash_null_def example_complaint_def
      backlog_next_def mintComplaintToBlockchain_def truthy_def or_else_def js_or_def
      Let_def say_def setupRealtimeListener_def mint_finally_def mint_catch_eq
      update_tx_hash_def creates_def)

lemma backlog_of_one_done:
  "run [Resume 0 (Resolved [])]
     \<lparr>processingComplaints = {}, processingStatusUpdates = {},
      db = [example_complaint 7 (Some ''ERROR: nonce too low'')], listening = False,
      tasks = [BacklogDelay []],
      console = [CheckingExisting, Found 1, ProcessingComplaint 7,
                 CallingLogComplaint 7 ''Pune'' ''General'', ErrorMinting 7 ''nonce too low''],
      calls = [LogComplaint 7 ''Pune'' ''General'']\<rparr> =
     \<lparr>processingComplaints = {}, processingStatusUpdates = {},
      db = [example_complaint 7 (Some ''ERROR: nonce too low'')], listening = True,
      tasks = [Finished],
      console = [CheckingExisting, Found 1, ProcessingComplaint 7,
                 CallingLogComplaint 7 ''Pune'' ''General'', ErrorMinting 7 ''nonce too low'',
                 FinishedExisting, SettingUpListener],
      calls = [LogComplaint 7 ''Pune'' ''General'']\<rparr>"
  by (simp add: backlog_next_def say_def setupRealtimeListener_def)

theorem failed_mint_not_retried_witness:
  "0 < length (tasks (step (Resume 0 (Resolved [])) (startServer [example_complaint 7 None]))) \<and>
   tasks (step (Resume 0 (Resolved [])) (startServer [example_complaint 7 None])) ! 0
     = BacklogMint 7 AwaitLogComplaint [] \<and>
   example_complaint 7 (Some ''ERROR: nonce too low'')
     \<in> set (db (run [Resume 0 (Rejected ''nonce too low''), Resume 0 (Resolved [])]
          (step (Resume 0 (Resolved [])) (startServer [example_complaint 7 None])))) \<and>
   mintComplaintToBlockchain (example_complaint 7 (Some ''ERROR: nonce too low'')) idle
     = (None, say (AlreadyHasTxHash 7) idle) \<and>
   example_complaint 7 (Some ''ERROR: nonce too low'')
     \<in> set (db (run [Resume 0 (Resolved [])]
       (run [Resume 0 (Rejected ''nonce too low''), Resume 0 (Resolved [])]
          (step (Resume 0 (Resolved [])) (startServer [example_complaint 7 None]))))) \<and>
   7 \<notin> complaint_id ` set (select_tx_hash_null
     (db (run [Resume 0 (Resolved [])]
       (run [Resume 0 (Rejected ''nonce too low''), Resume 0 (Resolved [])]
          (step (Resume 0 (Resolved [])) (startServer [example_complaint 7 None]))))))"
proof -
  let ?s = "step (Resume 0 (Resolved [])) (startServer [example_complaint 7 None])"
  let ?s1 = "run [Resume 0 (Rejected ''nonce too low''), Resume 0 (Resolved [])] ?s"
  let ?r = "example_complaint 7 (Some ''ERROR: nonce too low'')"
  have a: "0 < length (tasks ?s)"
    unfolding backlog_of_one by simp
  have t: "tasks ?s ! 0 = BacklogMint 7 AwaitLogComplaint []"
    unfolding backlog_of_one by simp
  then have b: "tasks ?s ! 0 = MintTask 7 AwaitLogComplaint \<or>
           tasks ?s ! 0 = BacklogMint 7 AwaitLogComplaint []"
    by (rule disjI2)
  have c: "AwaitLogComplaint = AwaitLogComplaint \<or> AwaitLogComplaint = AwaitTxWait"
    by simp
  note inst = failed_mint_not_retried [OF a b c, where m = "''nonce too low''" and x = "[]"
      and s' = idle and es = "[Resume 0 (Resolved [])]"]
  have r: "?r \<in> set (db ?s1)"
    unfolding backlog_of_one backlog_of_one_failed by simp
  have r2: "?r \<in> set (db (run [Resume 0 (Resolved [])] ?s1))"
    unfolding backlog_of_one backlog_of_one_failed backlog_of_one_done by simp
  have k: "complaint_id ?r = 7" "7 \<notin> processingComplaints idle"
    by (simp_all add: example_complaint_def idle_def)
  from inst r k have "mintComplaintToBlockchain ?r idle = (None, say (AlreadyHasTxHash 7) idle)"
    by blast
  moreover from inst have "7 \<notin> complaint_id ` set (select_tx_hash_null
     (db (run [Resume 0 (Resolved [])] ?s1)))"
    by blast
  ultimately show ?thesis using a t r r2 by blast
qed

section \<open>The console\<close>









section \<open>Before the listener is set up\<close>

lemma step_not_listening:
  assumes "\<not> listening s"
  shows "length (tasks (step e s)) = length (tasks s)"
proof (cases e)
  case (Resume tid r)
  then show ?thesis
    by (cases "tid < length (tasks s)")
      (simp_all add: step_Resume step_Resume_out del: step.simps)
next
  case (InsertNotification c)
  with assms show ?thesis by simp
next
  case (UpdateNotification prev cur)
  with assms show ?thesis by simp
qed

lemma run_listening: "listening s \<Longrightarrow> listening (run es s)"
  by (induction es arbitrary: s) (simp_all add: step_listening del: step.simps)

lemma single_task_before_listener:
  "\<not> listening (run es s) \<Longrightarrow> length (tasks (run es s)) = length (tasks s)"
proof (induction es arbitrary: s)
  case Nil
  then show ?case by simp
next
  case (Cons e es)
  have nl: "\<not> listening (step e s)"
    using Cons.prems run_listening [of "step e s" es] by (auto simp del: step.simps)
  then have "\<not> listening s"
    using step_listening by blast
  then have "length (tasks (step e s)) = length (tasks s)"
    by (rule step_not_listening)
  moreover have "length (tasks (run es (step e s))) = length (tasks (step e s))"
    using Cons.IH [of "step e s"] Cons.prems by (simp del: step.simps)
  ultimately show ?case by (simp del: step.simps)
qed

lemma outstanding_le_tasks: "outstanding s \<le> length (tasks s)"
  by (simp add: outstanding_def)

text \<open>
  C1 (as amended). The engine has no serializer: the coordinators call the contract
  themselves, with no sequence number. Submissions are one at a time only while the
  backlog is worked through at start-up: until the listener is set up, at most one
  submission is outstanding in every state the engine can reach.
\<close>

theorem one_submission_before_listener:
  "\<not> listening (run es (startServer rows)) \<Longrightarrow> outstanding (run es (startServer rows)) \<le> 1"
proof -
  assume "\<not> listening (run es (startServer rows))"
  then have "length (tasks (run es (startServer rows))) = length (tasks (startServer rows))"
    by (rule single_task_before_listener)
  then have "length (tasks (run es (startServer rows))) = 1"
    by (simp add: startServer_def)
  with outstanding_le_tasks [of "run es (startServer rows)"] show ?thesis by simp
qed

text \<open>
  C1 as stated fails: with the listener set up, the handlers of two INSERT notifications
  for different rows both call the contract, and both submissions are outstanding.
\<close>

theorem overlapping_submissions_counterexample:
  "outstanding
     (run [Resume 0 (Resolved []),
           InsertNotification (example_complaint 7 None),
           InsertNotification (example_complaint 8 None),
           Resume 1 (Resolved []), Resume 2 (Resolved [])]
        (startServer [])) = 2"
  by (simp add: startServer_def select_tx_hash_null_def example_complaint_def
      mintComplaintToBlockchain_def truthy_def or_else_def js_or_def Let_def say_def
      setupRealtimeListener_def outstanding_def)

theorem one_submission_before_listener_witness:
  "\<not> listening (run [Resume 0 (Resolved [])] (startServer [example_complaint 7 None])) \<and>
   outstanding (run [Resume 0 (Resolved [])] (startServer [example_complaint 7 None])) \<le> 1"
proof -
  have a: "\<not> listening (run [Resume 0 (Resolved [])] (startServer [example_complaint 7 None]))"
    unfolding run_Cons run_Nil backlog_of_one by simp
  show ?thesis
    using a one_submission_before_listener [OF a] by blast
qed

section \<open>The Backlog Reconciler\<close>














end
